theory Spec2Isabelle
  imports Main
begin

section \<open>The document model and the decorations, as the view descriptions see them\<close>

text \<open>
  The view descriptions of \<^verbatim>\<open>src/viewdesc.ts\<close> read document nodes, marks and decorations
  through a handful of properties. Those objects belong to the document model and to the
  decoration store; here they are plain values carrying exactly the properties that are read.

  A JavaScript string is the list of its UTF-16 code units, so \<^verbatim>\<open>text.length\<close> is the
  length of the list. A host (DOM) node is a handle.
\<close>

type_synonym ustring = "nat list"

type_synonym dom = nat

text \<open>
  A mark: its type name, its attributes, and \<^verbatim>\<open>type.spec.spanning\<close> (which may be
  absent). \<^verbatim>\<open>Mark.eq\<close> compares type and attributes; it is equality of these values.
\<close>

datatype mark = Mark (mtype: string) (mattrs: string) (spanning: "bool option")

text \<open>
  A document node. \<open>ident\<close> stands for the identity of the JavaScript object (the
  code compares nodes with \<^verbatim>\<open>==\<close> in \<^verbatim>\<open>preMatch\<close>); the other fields are the properties
  \<^verbatim>\<open>type.name\<close>, \<^verbatim>\<open>attrs\<close>, \<^verbatim>\<open>marks\<close>, \<^verbatim>\<open>isText\<close>, \<^verbatim>\<open>isLeaf\<close>, \<^verbatim>\<open>isTextblock\<close>,
  \<^verbatim>\<open>inlineContent\<close>, \<^verbatim>\<open>text\<close>, \<^verbatim>\<open>nodeSize\<close> and the children of \<^verbatim>\<open>content\<close>.
\<close>

datatype pnode = PNode
  (ident: nat)
  (tname: string)
  (nattrs: string)
  (marks: "mark list")
  (isText: bool)
  (isLeaf: bool)
  (isTextblock: bool)
  (inlineContent: bool)
  (ntext: ustring)
  (nodeSize: nat)
  (content: "pnode list")

text \<open>\<^verbatim>\<open>node.content.size\<close>: a fragment's size is the sum of its children's sizes.\<close>

definition content_size :: "pnode \<Rightarrow> nat" where
  "content_size n = sum_list (map nodeSize (content n))"

text \<open>
  \<^verbatim>\<open>node.eq(other)\<close> is structural: same markup and equal content, whatever the two
  objects' identities. \<open>forget\<close> erases the identities.
\<close>

fun forget :: "pnode \<Rightarrow> pnode" where
  "forget (PNode i t a m tx lf tb ic s z c) = PNode 0 t a m tx lf tb ic s z (map forget c)"

definition node_eq :: "pnode \<Rightarrow> pnode \<Rightarrow> bool" where
  "node_eq a b = (forget a = forget b)"

text \<open>\<^verbatim>\<open>node.sameMarkup(other)\<close>: same type, attributes and marks.\<close>

definition sameMarkup :: "pnode \<Rightarrow> pnode \<Rightarrow> bool" where
  "sameMarkup a b = (tname a = tname b \<and> nattrs a = nattrs b \<and> marks a = marks b)"

text \<open>
  The sizes the document model gives its nodes: a text node is a leaf as long as its text,
  any other leaf has size 1, and a node with content has its content's size plus the two
  tokens that open and close it.
\<close>

definition model_sizes :: "pnode \<Rightarrow> bool" where
  "model_sizes n =
     (if isText n then isLeaf n \<and> nodeSize n = length (ntext n)
      else if isLeaf n then nodeSize n = 1 \<and> content n = []
      else nodeSize n = content_size n + 2)"

text \<open>
  A decoration type: a widget with its \<^verbatim>\<open>toDOM\<close> (the identity of the function or host
  node it was given), its \<^verbatim>\<open>side\<close>, its \<^verbatim>\<open>spec.key\<close> (empty when the widget has none)
  and \<^verbatim>\<open>spec.marks\<close>; or an inline or node decoration with its attributes. A decoration
  has an identity, a range and a type. A decoration set is a handle; \<^verbatim>\<open>eq\<close> on sets is
  equality of handles.
\<close>

datatype decotype =
    WidgetType (toDOM: nat) (side: int) (wkey: string) (wmarks: "mark list option")
  | InlineType (dattrs: string)
  | NodeType (dattrs: string)

datatype deco = Decoration (did: nat) (dfrom: int) (dto: int) (dtype: decotype)

type_synonym decoset = nat

text \<open>
  Modelled from the spec: \<^verbatim>\<open>type.eq\<close>, the comparison of two decoration types. It belongs
  to the decoration store (\<^verbatim>\<open>decoration.ts\<close>), which is not among the sources; the view
  descriptions call it in \<^verbatim>\<open>matchesWidget\<close> and \<^verbatim>\<open>sameOuterDeco\<close> to decide whether two
  decorations are "of the same type". Two widget types are the same when they carry the
  same non-empty key, whatever else they hold, or when they have the same \<^verbatim>\<open>toDOM\<close> and
  the same specification; two inline types, or two node types, when they have the same
  attributes. Types of different classes are never the same.
\<close>

fun type_eq :: "decotype \<Rightarrow> decotype \<Rightarrow> bool" where
  "type_eq (WidgetType t sd k m) (WidgetType t' sd' k' m') =
     ((k \<noteq> [] \<and> k = k') \<or> (t = t' \<and> sd = sd' \<and> k = k' \<and> m = m'))"
| "type_eq (InlineType a) (InlineType b) = (a = b)"
| "type_eq (NodeType a) (NodeType b) = (a = b)"
| "type_eq _ _ = False"

section \<open>The host tree\<close>

text \<open>
  What the code reads from the host's nodes: \<^verbatim>\<open>nodeType\<close> (1 an element, 3 a text node),
  \<^verbatim>\<open>parentNode\<close>, \<^verbatim>\<open>childNodes\<close>, \<^verbatim>\<open>nodeValue\<close>, the native \<^verbatim>\<open>contains\<close> (false for an
  absent argument) and the \<^verbatim>\<open>pmViewDesc\<close> link from a host node back to its description
  (a description is named by its path from the root of the description tree).
\<close>

record host =
  nodeType :: "dom \<Rightarrow> nat"
  parentNode :: "dom \<Rightarrow> dom option"
  childNodes :: "dom \<Rightarrow> dom list"
  nodeValue :: "dom \<Rightarrow> ustring"
  contains :: "dom \<Rightarrow> dom option \<Rightarrow> bool"
  pmViewDesc :: "dom \<Rightarrow> nat list option"

text \<open>The errors the code raises.\<close>

datatype error = InvalidPosition int | TypeError | RangeError | IndexSizeError

section \<open>View descriptions\<close>

text \<open>The dirty levels, ordered as numbers.\<close>

definition NOT_DIRTY :: nat where "NOT_DIRTY = 0"
definition CHILD_DIRTY :: nat where "CHILD_DIRTY = 1"
definition CONTENT_DIRTY :: nat where "CONTENT_DIRTY = 2"
definition NODE_DIRTY :: nat where "NODE_DIRTY = 3"

text \<open>
  The classes of view descriptions and the fields each adds to the base class.
  \<^verbatim>\<open>TextViewDesc\<close> and \<^verbatim>\<open>CustomNodeViewDesc\<close> extend \<^verbatim>\<open>NodeViewDesc\<close>; a custom node view
  carries what its \<^verbatim>\<open>spec\<close> answers: whether it has an \<^verbatim>\<open>update\<close> hook and what the
  hook returns.
\<close>

datatype nodekind =
    PlainNode
  | TextNode
  | CustomNode (hasUpdate: bool) (specUpdate: "pnode \<Rightarrow> deco list \<Rightarrow> bool")

datatype cls =
    WidgetViewDesc (widget: deco)
  | CompositionViewDesc (textDOM: dom) (ctext: ustring)
  | MarkViewDesc (mark: mark)
  | NodeViewDesc (kind: nodekind) (pnode: pnode) (outerDeco: "deco list")
      (innerDeco: decoset) (nodeDOM: dom)
  | BRHackViewDesc

text \<open>
  A view description: its class, its dirty level, its outer host node, its content host
  node (absent for descriptions without children) and its children. \<open>oid\<close> is the
  identity of the object. The \<^verbatim>\<open>parent\<close> link of the source is the position in the tree.
\<close>

datatype desc = Desc
  (oid: nat)
  (cls: cls)
  (dirty: nat)
  (dom: dom)
  (contentDOM: "dom option")
  (children: "desc list")

definition node :: "desc \<Rightarrow> pnode option" where
  "node d = (case cls d of NodeViewDesc k n od idc nd \<Rightarrow> Some n | _ \<Rightarrow> None)"

definition isMark :: "desc \<Rightarrow> bool" where
  "isMark d = (case cls d of MarkViewDesc m \<Rightarrow> True | _ \<Rightarrow> False)"

definition set_dirty :: "desc \<Rightarrow> nat \<Rightarrow> desc" where
  "set_dirty d v = Desc (oid d) (cls d) v (dom d) (contentDOM d) (children d)"

definition set_children :: "desc \<Rightarrow> desc list \<Rightarrow> desc" where
  "set_children d cs = Desc (oid d) (cls d) (dirty d) (dom d) (contentDOM d) cs"

subsection \<open>Matching\<close>

text \<open>\<^verbatim>\<open>sameOuterDeco\<close>: same length and pairwise \<^verbatim>\<open>type.eq\<close>.\<close>

fun sameOuterDeco :: "deco list \<Rightarrow> deco list \<Rightarrow> bool" where
  "sameOuterDeco [] [] = True"
| "sameOuterDeco (x # xs) (y # ys) = (type_eq (dtype x) (dtype y) \<and> sameOuterDeco xs ys)"
| "sameOuterDeco _ _ = False"

text \<open>
  The four matching methods. The base class answers false; each of the four classes
  below overrides its own method.
\<close>

definition matchesWidget :: "desc \<Rightarrow> deco \<Rightarrow> bool" where
  "matchesWidget d w =
     (case cls d of
        WidgetViewDesc wd \<Rightarrow> dirty d = NOT_DIRTY \<and> type_eq (dtype w) (dtype wd)
      | _ \<Rightarrow> False)"

definition matchesMark :: "desc \<Rightarrow> mark \<Rightarrow> bool" where
  "matchesMark d m =
     (case cls d of
        MarkViewDesc mk \<Rightarrow> dirty d \<noteq> NODE_DIRTY \<and> mk = m
      | _ \<Rightarrow> False)"

definition matchesNode :: "desc \<Rightarrow> pnode \<Rightarrow> deco list \<Rightarrow> decoset \<Rightarrow> bool" where
  "matchesNode d n od idc =
     (case cls d of
        NodeViewDesc k dn dod didc nd \<Rightarrow>
          dirty d = NOT_DIRTY \<and> node_eq n dn \<and> sameOuterDeco od dod \<and> idc = didc
      | _ \<Rightarrow> False)"

definition matchesHack :: "desc \<Rightarrow> bool" where
  "matchesHack d =
     (case cls d of
        BRHackViewDesc \<Rightarrow> dirty d = NOT_DIRTY
      | _ \<Rightarrow> False)"

subsection \<open>Sizes and positions\<close>

text \<open>
  \<^verbatim>\<open>size\<close>: a node description has its node's \<^verbatim>\<open>nodeSize\<close>, a composition its text's
  length, every other description the sum of its children's sizes. \<^verbatim>\<open>border\<close>: 1 for a
  node description whose node is not a leaf, 0 otherwise.
\<close>

fun vsize :: "desc \<Rightarrow> nat" where
  "vsize (Desc i c dty dm cd cs) =
     (case c of
        NodeViewDesc k n od idc nd \<Rightarrow> nodeSize n
      | CompositionViewDesc td tx \<Rightarrow> length tx
      | _ \<Rightarrow> sum_list (map vsize cs))"

definition border :: "desc \<Rightarrow> nat" where
  "border d =
     (case cls d of
        NodeViewDesc k n od idc nd \<Rightarrow> (if isLeaf n then 0 else 1)
      | _ \<Rightarrow> 0)"

text \<open>
  A description is addressed by the child indices that lead to it from the root, so
  \<^verbatim>\<open>this.parent\<close> is the path without its last index and the root is the empty path.
  \<^verbatim>\<open>posBeforeChild\<close> adds the sizes of the children before the child to the parent's
  \<^verbatim>\<open>posAtStart\<close>; \<^verbatim>\<open>posAtStart\<close> is 0 at the root and the parent's \<^verbatim>\<open>posBeforeChild\<close> plus the
  description's own border below it. A path that leaves the tree has no description.
\<close>

fun descAtPath :: "desc \<Rightarrow> nat list \<Rightarrow> desc option" where
  "descAtPath d [] = Some d"
| "descAtPath d (i # p) =
     (if i < length (children d) then descAtPath (children d ! i) p else None)"

definition posBeforeChild :: "int \<Rightarrow> desc \<Rightarrow> nat \<Rightarrow> int" where
  "posBeforeChild start parent i = start + int (sum_list (map vsize (take i (children parent))))"

fun posAtStart_from :: "int \<Rightarrow> desc \<Rightarrow> nat list \<Rightarrow> int option" where
  "posAtStart_from start d [] = Some start"
| "posAtStart_from start d (i # p) =
     (if i < length (children d)
      then posAtStart_from (posBeforeChild start d i + int (border (children d ! i)))
             (children d ! i) p
      else None)"

definition posAtStart :: "desc \<Rightarrow> nat list \<Rightarrow> int option" where
  "posAtStart root p = posAtStart_from 0 root p"

definition posAtEnd :: "desc \<Rightarrow> nat list \<Rightarrow> int option" where
  "posAtEnd root p =
     (case (posAtStart root p, descAtPath root p) of
        (Some s, Some d) \<Rightarrow> Some (s + int (vsize d) - 2 * int (border d))
      | _ \<Rightarrow> None)"

text \<open>
  \<^verbatim>\<open>TextViewDesc.localPosFromDOM\<close>: a position in the description's own text node is the
  start position plus the offset, cut at the text's length; any other host position goes
  to the inherited method \<open>super\<close>.
\<close>

definition TextViewDesc_localPosFromDOM ::
  "(dom \<Rightarrow> int \<Rightarrow> int \<Rightarrow> int option) \<Rightarrow> desc \<Rightarrow> nat list \<Rightarrow> dom \<Rightarrow> int \<Rightarrow> int \<Rightarrow> int option" where
  "TextViewDesc_localPosFromDOM super root p dm offset bias =
     (case descAtPath root p of
        Some (Desc i (NodeViewDesc TextNode n od idc nd) dty dm' cd cs) \<Rightarrow>
          if dm = nd
          then (case posAtStart root p of
                  Some s \<Rightarrow> Some (s + min offset (int (length (ntext n))))
                | None \<Rightarrow> None)
          else super dm offset bias
      | _ \<Rightarrow> None)"

text \<open>
  \<^verbatim>\<open>markParentsDirty\<close>, called on the description at path \<open>p\<close>: the parent is raised to
  at least \<^verbatim>\<open>CONTENT_DIRTY\<close>, every ancestor above it to at least \<^verbatim>\<open>CHILD_DIRTY\<close>. The
  description an ancestor sees at distance 1 is its own child.
\<close>

fun markParentsDirty :: "desc \<Rightarrow> nat list \<Rightarrow> desc" where
  "markParentsDirty d [] = d"
| "markParentsDirty d (i # p) =
     (if i < length (children d)
      then (let lvl = (if p = [] then CONTENT_DIRTY else CHILD_DIRTY)
            in Desc (oid d) (cls d) (if dirty d < lvl then lvl else dirty d) (dom d) (contentDOM d)
                 ((children d)[i := markParentsDirty (children d ! i) p]))
      else d)"

subsection \<open>Marking a range dirty\<close>

text \<open>
  \<^verbatim>\<open>contentLost\<close>: the description has a content node that is not its outer node and is
  no longer inside it.
\<close>

definition contentLost :: "host \<Rightarrow> desc \<Rightarrow> bool" where
  "contentLost h d =
     (case contentDOM d of
        None \<Rightarrow> False
      | Some c \<Rightarrow> c \<noteq> dom d \<and> \<not> contains h (dom d) (Some c))"

text \<open>
  The test \<^verbatim>\<open>offset == end ? from <= end && to >= offset : from < end && to > offset\<close>: the
  range reaches into the child that spans \<open>offset\<close> to \<open>ed\<close>.
\<close>

definition overlaps :: "int \<Rightarrow> int \<Rightarrow> int \<Rightarrow> int \<Rightarrow> bool" where
  "overlaps offset ed frm to =
     (if offset = ed then frm \<le> ed \<and> to \<ge> offset else frm < ed \<and> to > offset)"

text \<open>
  \<^verbatim>\<open>markDirty(from, to)\<close>. \<open>markDirty_loop\<close> is the loop over the children, from the child
  at \<open>offset\<close> on; it returns the level the loop assigned to \<^verbatim>\<open>this.dirty\<close> before it
  returned from inside (absent when the loop ran to its end, after which \<^verbatim>\<open>this.dirty\<close> is
  \<^verbatim>\<open>CONTENT_DIRTY\<close>) and the children as the loop left them.

  \<^verbatim>\<open>MarkViewDesc.markDirty\<close> then moves its level to the nearest ancestor with a node and
  resets its own. The ancestor is above the description in the tree, so each call also
  returns the level that is still on its way up: a mark description passes on its own level
  and what came from below, a node description takes what came from below into its own
  level (it assigned its own level before it called the child).
\<close>

fun markDirty :: "host \<Rightarrow> desc \<Rightarrow> int \<Rightarrow> int \<Rightarrow> desc \<times> nat"
  and markDirty_loop ::
    "host \<Rightarrow> dom option \<Rightarrow> desc list \<Rightarrow> int \<Rightarrow> int \<Rightarrow> int \<Rightarrow> nat option \<times> desc list \<times> nat"
where
  "markDirty h (Desc i c dty dm cd cs) frm to =
     (case markDirty_loop h cd cs 0 frm to of
        (own, cs', up) \<Rightarrow>
          (let dty' = (case own of Some x \<Rightarrow> x | None \<Rightarrow> CONTENT_DIRTY) in
           case c of
             MarkViewDesc m \<Rightarrow>
               if dty' \<noteq> NOT_DIRTY then (Desc i c NOT_DIRTY dm cd cs', max dty' up)
               else (Desc i c dty' dm cd cs', up)
           | NodeViewDesc k n od idc nd \<Rightarrow> (Desc i c (max dty' up) dm cd cs', 0)
           | _ \<Rightarrow> (Desc i c dty' dm cd cs', up)))"
| "markDirty_loop h cd [] offset frm to = (None, [], 0)"
| "markDirty_loop h cd (child # rest) offset frm to =
     (let ed = offset + int (vsize child) in
      if overlaps offset ed frm to
      then
        (let startInside = offset + int (border child);
             endInside = ed - int (border child) in
         if frm \<ge> startInside \<and> to \<le> endInside
         then
           (let own = (if frm = offset \<or> to = ed then CONTENT_DIRTY else CHILD_DIRTY) in
            if frm = startInside \<and> to = endInside
               \<and> (contentLost h child \<or> parentNode h (dom child) \<noteq> cd)
            then (Some own, set_dirty child NODE_DIRTY # rest, 0)
            else (case markDirty h child (frm - startInside) (to - startInside) of
                    (child', up) \<Rightarrow> (Some own, child' # rest, up)))
         else
           (case markDirty_loop h cd rest ed frm to of
              (own, rest', up) \<Rightarrow> (own, set_dirty child NODE_DIRTY # rest', up)))
      else
        (case markDirty_loop h cd rest ed frm to of
           (own, rest', up) \<Rightarrow> (own, child # rest', up)))"

text \<open>
  A mark description looks for its ancestor with \<^verbatim>\<open>while (!parent.node) parent = parent.parent\<close>;
  called on a mark description that is the root of its tree this reads a property of an
  absent parent.
\<close>

definition markDirty_root :: "host \<Rightarrow> desc \<Rightarrow> int \<Rightarrow> int \<Rightarrow> error + desc" where
  "markDirty_root h d frm to =
     (case markDirty h d frm to of
        (d', up) \<Rightarrow> if node d = None \<and> up \<noteq> NOT_DIRTY then Inl TypeError else Inr d')"

text \<open>
  The way \<^verbatim>\<open>markDirty\<close> takes through the tree: for every description it recurses from, the
  index of the child it goes to and the level it assigned to the description; and whether
  it ended by setting the last child to \<^verbatim>\<open>NODE_DIRTY\<close> instead of calling its \<^verbatim>\<open>markDirty\<close>.
\<close>

fun dirtyTrail :: "host \<Rightarrow> desc \<Rightarrow> int \<Rightarrow> int \<Rightarrow> (nat \<times> nat) list \<times> bool"
  and dirtyTrail_loop ::
    "host \<Rightarrow> dom option \<Rightarrow> desc list \<Rightarrow> nat \<Rightarrow> int \<Rightarrow> int \<Rightarrow> int \<Rightarrow> (nat \<times> nat) list \<times> bool"
where
  "dirtyTrail h (Desc i c dty dm cd cs) frm to = dirtyTrail_loop h cd cs 0 0 frm to"
| "dirtyTrail_loop h cd [] j offset frm to = ([], False)"
| "dirtyTrail_loop h cd (child # rest) j offset frm to =
     (let ed = offset + int (vsize child) in
      if overlaps offset ed frm to
      then
        (let startInside = offset + int (border child);
             endInside = ed - int (border child) in
         if frm \<ge> startInside \<and> to \<le> endInside
         then
           (let own = (if frm = offset \<or> to = ed then CONTENT_DIRTY else CHILD_DIRTY) in
            if frm = startInside \<and> to = endInside
               \<and> (contentLost h child \<or> parentNode h (dom child) \<noteq> cd)
            then ([(j, own)], True)
            else (case dirtyTrail h child (frm - startInside) (to - startInside) of
                    (t, stop) \<Rightarrow> ((j, own) # t, stop)))
         else dirtyTrail_loop h cd rest (Suc j) ed frm to)
      else dirtyTrail_loop h cd rest (Suc j) ed frm to)"





subsection \<open>From a position to a host location\<close>

text \<open>
  \<^verbatim>\<open>beforePosition\<close> is true for a widget with a negative side. \<^verbatim>\<open>domIndex\<close> counts the
  previous siblings of a host node, the nodes before it among its parent's children.
\<close>

definition beforePosition :: "desc \<Rightarrow> bool" where
  "beforePosition d =
     (case cls d of
        WidgetViewDesc w \<Rightarrow> (case dtype w of WidgetType t sd k m \<Rightarrow> sd < 0 | _ \<Rightarrow> False)
      | _ \<Rightarrow> False)"

definition domIndex :: "host \<Rightarrow> dom \<Rightarrow> nat" where
  "domIndex h n =
     (case parentNode h n of
        None \<Rightarrow> 0
      | Some p \<Rightarrow> length (takeWhile (\<lambda>c. c \<noteq> n) (childNodes h p)))"

text \<open>
  The host offset \<^verbatim>\<open>domFromPos\<close> returns once it stands at the position, with \<open>cs\<close> the
  children from index \<^verbatim>\<open>i\<close> on: it skips the children that are widgets before the position
  or whose host node is not a child of the content node, and takes the index of the next
  child's host node, or the number of host children when no child is left.
\<close>

fun domOffsetAt :: "host \<Rightarrow> dom \<Rightarrow> desc list \<Rightarrow> int" where
  "domOffsetAt h cdom [] = int (length (childNodes h cdom))"
| "domOffsetAt h cdom (c # rest) =
     (if beforePosition c \<or> parentNode h (dom c) \<noteq> Some cdom
      then domOffsetAt h cdom rest
      else int (domIndex h (dom c)))"

text \<open>
  \<^verbatim>\<open>domFromPos(pos)\<close>. A composition and a text description answer with their text node
  and the position as it is. Any other description without a content node answers with its
  outer node and offset 0; with a content node it walks over its children
  (\<open>domFromPos_loop\<close>, with \<open>cs\<close> the children from index \<^verbatim>\<open>i\<close> on and \<open>offset\<close> the
  position before them) and raises \<^verbatim>\<open>Invalid position\<close> when the children are used up.
\<close>

fun domFromPos :: "host \<Rightarrow> desc \<Rightarrow> int \<Rightarrow> error + (dom \<times> int)"
  and domFromPos_loop :: "host \<Rightarrow> dom \<Rightarrow> desc list \<Rightarrow> int \<Rightarrow> int \<Rightarrow> error + (dom \<times> int)"
where
  "domFromPos h (Desc i c dty dm cd cs) pos =
     (case c of
        CompositionViewDesc td tx \<Rightarrow> Inr (td, pos)
      | NodeViewDesc TextNode n od idc nd \<Rightarrow> Inr (nd, pos)
      | _ \<Rightarrow>
          (case cd of
             None \<Rightarrow> Inr (dm, 0)
           | Some cdom \<Rightarrow> domFromPos_loop h cdom cs 0 pos))"
| "domFromPos_loop h cdom [] offset pos =
     (if offset = pos then Inr (cdom, domOffsetAt h cdom [])
      else Inl (InvalidPosition pos))"
| "domFromPos_loop h cdom (child # rest) offset pos =
     (if offset = pos then Inr (cdom, domOffsetAt h cdom (child # rest))
      else
        (let ed = offset + int (vsize child) in
         if pos < ed then domFromPos h child (pos - offset - int (border child))
         else domFromPos_loop h cdom rest ed pos))"

text \<open>
  The descriptions that use the walk over the children: those with a content node that are
  neither a composition nor a text description.
\<close>

definition walksChildren :: "desc \<Rightarrow> bool" where
  "walksChildren d =
     (contentDOM d \<noteq> None \<and>
      (case cls d of
         CompositionViewDesc td tx \<Rightarrow> False
       | NodeViewDesc TextNode n od idc nd \<Rightarrow> False
       | _ \<Rightarrow> True))"

subsection \<open>From a host location to a position\<close>

text \<open>
  \<^verbatim>\<open>getDesc(dom)\<close>: the description the host node links to, if walking up its
  \<^verbatim>\<open>parent\<close> links meets \<^verbatim>\<open>this\<close>. \<open>climbsTo\<close> is that walk: the parent of the description
  at a path is at the path without its last index, and the root has no parent.
\<close>

function climbsTo :: "nat list \<Rightarrow> nat list \<Rightarrow> bool" where
  "climbsTo this cur =
     (if cur = this then True
      else if cur = [] then False
      else climbsTo this (butlast cur))"
  by pat_completeness auto
termination
  by (relation "measure (\<lambda>(this, cur). length cur)") auto

definition getDesc :: "host \<Rightarrow> nat list \<Rightarrow> dom \<Rightarrow> nat list option" where
  "getDesc h this dm =
     (case pmViewDesc h dm of
        None \<Rightarrow> None
      | Some q \<Rightarrow> if climbsTo this q then Some q else None)"

text \<open>
  \<^verbatim>\<open>posFromDOM(dom, offset, bias)\<close> scans from the host node up through its parents for
  the first node with a description under \<^verbatim>\<open>this\<close> and asks that description's
  \<^verbatim>\<open>localPosFromDOM\<close> (a method of the description found, here the argument \<open>lp\<close>);
  when the scan runs out of parents it returns -1. The scan follows \<^verbatim>\<open>parentNode\<close> for as
  long as there is one, so it is a partial function: \<open>None\<close> is a scan that never ends.
\<close>

partial_function (option) posFromDOM_scan ::
  "(nat list \<Rightarrow> dom \<Rightarrow> int \<Rightarrow> int \<Rightarrow> int) \<Rightarrow> host \<Rightarrow> nat list \<Rightarrow> dom option \<Rightarrow> dom \<Rightarrow> int \<Rightarrow> int
     \<Rightarrow> int option" where
  "posFromDOM_scan lp h this scan dm offset bias =
     (case scan of
        None \<Rightarrow> Some (- 1)
      | Some s \<Rightarrow>
          (case getDesc h this s of
             Some q \<Rightarrow> Some (lp q dm offset bias)
           | None \<Rightarrow> posFromDOM_scan lp h this (parentNode h s) dm offset bias))"

definition posFromDOM ::
  "(nat list \<Rightarrow> dom \<Rightarrow> int \<Rightarrow> int \<Rightarrow> int) \<Rightarrow> host \<Rightarrow> nat list \<Rightarrow> dom \<Rightarrow> int \<Rightarrow> int \<Rightarrow> int option" where
  "posFromDOM lp h this dm offset bias = posFromDOM_scan lp h this (Some dm) dm offset bias"

text \<open>The ancestors of a host node, nearest first, up to the node without a parent.\<close>

fun parentChain :: "host \<Rightarrow> dom \<Rightarrow> dom list \<Rightarrow> bool" where
  "parentChain h n [] = (parentNode h n = None)"
| "parentChain h n (m # ms) = (parentNode h n = Some m \<and> parentChain h m ms)"

text \<open>
  \<^verbatim>\<open>domAfterPos(pos)\<close>: the host node after the location of \<open>pos\<close>; a range error when
  the location is not in an element or is at its end. Indexing \<^verbatim>\<open>childNodes\<close> out of range
  gives an absent node.
\<close>

definition domAfterPos :: "host \<Rightarrow> desc \<Rightarrow> int \<Rightarrow> error + dom option" where
  "domAfterPos h d pos =
     (case domFromPos h d pos of
        Inl e \<Rightarrow> Inl e
      | Inr (n, offset) \<Rightarrow>
          if nodeType h n \<noteq> 1 \<or> offset = int (length (childNodes h n)) then Inl RangeError
          else if 0 \<le> offset \<and> offset < int (length (childNodes h n))
          then Inr (Some (childNodes h n ! nat offset))
          else Inr None)"

section \<open>Reversible probes\<close>

text \<open>
  What a probe can change and a user can see: the state the view has applied
  (\<^verbatim>\<open>view.state\<close>, compared by identity, so a handle), the focused element
  (\<^verbatim>\<open>activeElement\<close>, which may be absent) and the native selection with its ranges, its
  focus point and, on one host, its \<^verbatim>\<open>caretBidiLevel\<close>. A host range is its start and end
  points.
\<close>

type_synonym estate = nat

type_synonym hostrange = "(dom \<times> int) \<times> (dom \<times> int)"

record selection =
  ranges :: "hostrange list"
  focusNode :: "dom option"
  focusOffset :: int
  caretBidiLevel :: "nat option"

record editor =
  vstate :: estate
  activeElement :: "dom option"
  domSel :: selection

text \<open>
  Modelled from the spec: \<^verbatim>\<open>view.updateState\<close> and \<^verbatim>\<open>focus\<close> are methods of the view and of
  host elements, not in the source files. The spec names what they change: the applied
  state and the focus.
\<close>

definition updateState :: "estate \<Rightarrow> editor \<Rightarrow> editor" where
  "updateState st e = e\<lparr>vstate := st\<rparr>"

definition focus :: "dom \<Rightarrow> editor \<Rightarrow> editor" where
  "focus el e = e\<lparr>activeElement := Some el\<rparr>"

text \<open>
  \<^verbatim>\<open>withFlushedState(view, state, f)\<close>. The probe \<open>f\<close> returns a value or raises (\<open>Inl\<close>);
  either way the \<^verbatim>\<open>finally\<close> block runs on the editor as \<open>f\<close> left it, and the outcome of
  \<open>f\<close> is the outcome of the whole. \<open>flushed\<close> is the editor as \<open>f\<close> finds it.
\<close>

definition flushed :: "dom \<Rightarrow> estate \<Rightarrow> editor \<Rightarrow> editor" where
  "flushed viewdom st e =
     (let e1 = (if vstate e \<noteq> st then updateState st e else e)
      in if activeElement e \<noteq> Some viewdom then focus viewdom e1 else e1)"

definition withFlushedState ::
  "dom \<Rightarrow> estate \<Rightarrow> (editor \<Rightarrow> (error + 'a) \<times> editor) \<Rightarrow> editor \<Rightarrow> (error + 'a) \<times> editor" where
  "withFlushedState viewdom st f e =
     (let viewState = vstate e;
          active = activeElement e;
          (r, e3) = f (flushed viewdom st e);
          e4 = (if viewState \<noteq> st then updateState viewState e3 else e3);
          e5 = (case active of
                  Some a \<Rightarrow> if a \<noteq> viewdom then focus a e4 else e4
                | None \<Rightarrow> e4)
      in (r, e5))"

text \<open>
  The body of the probe in \<^verbatim>\<open>endOfTextblockHorizontal\<close>. \<open>modify\<close> is the host's
  \<^verbatim>\<open>Selection.modify("move", dir, "character")\<close>. \<^verbatim>\<open>getRangeAt(0)\<close> raises on a selection
  without a range; \<^verbatim>\<open>domAfterPos\<close> may raise; reading a property of an absent node raises a
  type error. \<^verbatim>\<open>removeAllRanges\<close> and \<^verbatim>\<open>addRange(oldRange)\<close> leave the one range
  \<open>oldRange\<close>, with the focus at its end.
\<close>

definition horizontalProbe ::
  "(string \<Rightarrow> selection \<Rightarrow> selection) \<Rightarrow> host \<Rightarrow> desc \<Rightarrow> dom \<Rightarrow> nat \<Rightarrow> int \<Rightarrow> string
     \<Rightarrow> editor \<Rightarrow> (error + bool) \<times> editor" where
  "horizontalProbe modify h docView viewdom depth before dir e =
     (case ranges (domSel e) of
        [] \<Rightarrow> (Inl IndexSizeError, e)
      | oldRange # others \<Rightarrow>
          (let oldNode = focusNode (domSel e);
               oldOff = focusOffset (domSel e);
               oldBidiLevel = caretBidiLevel (domSel e);
               sel = modify dir (domSel e);
               e1 = e\<lparr>domSel := sel\<rparr>
           in case (if depth \<noteq> 0 then domAfterPos h docView before else Inr (Some viewdom)) of
                Inl err \<Rightarrow> (Inl err, e1)
              | Inr None \<Rightarrow> (Inl TypeError, e1)
              | Inr (Some parentDOM) \<Rightarrow>
                  (case focusNode sel of
                     None \<Rightarrow> (Inl TypeError, e1)
                   | Some fn \<Rightarrow>
                       (let result =
                              (\<not> contains h parentDOM
                                   (if nodeType h fn = 1 then Some fn else parentNode h fn)
                               \<or> (oldNode = focusNode sel \<and> oldOff = focusOffset sel));
                            sel2 = sel\<lparr>ranges := [oldRange],
                                      focusNode := Some (fst (snd oldRange)),
                                      focusOffset := snd (snd oldRange)\<rparr>;
                            sel3 = (case oldBidiLevel of
                                      Some b \<Rightarrow> sel2\<lparr>caretBidiLevel := Some b\<rparr>
                                    | None \<Rightarrow> sel2)
                        in (Inr result, e1\<lparr>domSel := sel3\<rparr>)))))"

text \<open>
  \<^verbatim>\<open>endOfTextblockHorizontal\<close>, given what it reads from the state's selection head:
  whether the parent is a textblock, the offset in it and the size of its content, its
  text, its depth and the position before it; and whether the host has
  \<^verbatim>\<open>Selection.modify\<close>. \<open>maybeRTL\<close> is the test for a code unit from U+0590 to U+08AC.
\<close>

definition maybeRTL :: "ustring \<Rightarrow> bool" where
  "maybeRTL s = list_ex (\<lambda>c. 1424 \<le> c \<and> c \<le> 2220) s"

definition endOfTextblockHorizontal ::
  "(string \<Rightarrow> selection \<Rightarrow> selection) \<Rightarrow> bool \<Rightarrow> host \<Rightarrow> desc \<Rightarrow> dom \<Rightarrow> estate
     \<Rightarrow> bool \<Rightarrow> nat \<Rightarrow> nat \<Rightarrow> ustring \<Rightarrow> nat \<Rightarrow> int \<Rightarrow> string
     \<Rightarrow> editor \<Rightarrow> (error + bool) \<times> editor" where
  "endOfTextblockHorizontal modify hasModify h docView viewdom st
       isTextblockParent parentOffset parentSize textContent depth before dir e =
     (if \<not> isTextblockParent then (Inr False, e)
      else
        (let atStart = (parentOffset = 0);
             atEnd = (parentOffset = parentSize)
         in if \<not> maybeRTL textContent \<or> \<not> hasModify
            then (Inr (if dir = ''left'' \<or> dir = ''backward'' then atStart else atEnd), e)
            else withFlushedState viewdom st
                   (horizontalProbe modify h docView viewdom depth before dir) e))"

section \<open>Reconciliation\<close>

text \<open>
  An update reads and changes more than the description tree: the host tree, the supply
  of new objects and host nodes (\<open>fresh\<close>, the next unused identity), the link from a host
  node to its description (during an update descriptions move, so the link is kept by the
  description's identity) and, as a record of what was done to the host, the list of
  events.
\<close>

datatype event =
    Destroy nat
  | SetNodeValue dom ustring
  | PatchOuterDeco dom
  | RenderDescs dom

record world =
  hst :: host
  fresh :: nat
  linked :: "dom \<Rightarrow> nat option"
  events :: "event list"

text \<open>
  \<^verbatim>\<open>destroy()\<close>: the link of the outer host node is cleared if it points to this description,
  then the children are destroyed.
\<close>

fun destroy :: "desc \<Rightarrow> world \<Rightarrow> world"
  and destroy_all :: "desc list \<Rightarrow> world \<Rightarrow> world"
where
  "destroy (Desc i c dty dm cd cs) w =
     destroy_all cs
       (w\<lparr>linked := (if linked w dm = Some i then (linked w)(dm := None) else linked w),
          events := events w @ [Destroy i]\<rparr>)"
| "destroy_all [] w = w"
| "destroy_all (c # cs) w = destroy_all cs (destroy c w)"

text \<open>
  The identities of a description and of everything below it, in the order in which
  \<^verbatim>\<open>destroy()\<close> reaches them.
\<close>

fun oids :: "desc \<Rightarrow> nat list" where
  "oids (Desc i c dty dm cd cs) = i # concat (map oids cs)"

text \<open>
  The descriptions that \<^verbatim>\<open>destroy()\<close> reaches from a list of descriptions, and the links
  from host nodes to descriptions that are left when all of them are destroyed: the link of
  a host node is cleared when it points to one of them and that host node is its outer
  node.
\<close>

fun below :: "desc \<Rightarrow> desc list" where
  "below (Desc i c dty dm cd cs) = Desc i c dty dm cd cs # concat (map below cs)"

definition unlinked :: "desc list \<Rightarrow> world \<Rightarrow> dom \<Rightarrow> nat option" where
  "unlinked ds w x =
     (if \<exists>e \<in> set (concat (map below ds)). dom e = x \<and> linked w x = Some (oid e)
      then None else linked w x)"

text \<open>
  What the view contributes: whether a composition is going on; how marks are drawn
  (whether the rendering of a mark holds its content in the outer node itself or in a node
  inside it); and the decoration compositor \<^verbatim>\<open>patchOuterDeco\<close>, taken as given: from the
  host, the next unused identity, the outer host node, the node's own host node, the old
  and new outer decorations, the node and whether its own host node needs a wrapper, it
  answers with the new outer host node, the host and the next unused identity.
\<close>

datatype cshape = NoContent | ContentIsDom | ContentInside

record view =
  composing :: bool
  markShape :: "mark \<Rightarrow> bool \<Rightarrow> cshape"
  patchOuterDeco ::
    "host \<Rightarrow> nat \<Rightarrow> dom \<Rightarrow> dom \<Rightarrow> deco list \<Rightarrow> deco list \<Rightarrow> pnode \<Rightarrow> bool \<Rightarrow> dom \<times> host \<times> nat"

text \<open>
  \<^verbatim>\<open>MarkViewDesc.create\<close>: a new mark description around a new host node; its content node
  is \<^verbatim>\<open>spec.contentDOM || spec.dom\<close>.
\<close>

definition MarkViewDesc_create :: "view \<Rightarrow> mark \<Rightarrow> bool \<Rightarrow> world \<Rightarrow> desc \<times> world" where
  "MarkViewDesc_create v m inline w =
     (let i = fresh w; dm = fresh w + 1;
          cd = (if markShape v m inline = ContentInside then fresh w + 2 else dm)
      in (Desc i (MarkViewDesc m) NOT_DIRTY dm (Some cd) [],
          w\<lparr>fresh := fresh w + 3, linked := (linked w)(dm := Some i)\<rparr>))"

subsection \<open>The tree updater\<close>

text \<open>
  \<^verbatim>\<open>ViewTreeUpdater\<close>. The source keeps references: \<^verbatim>\<open>top\<close> is the description whose
  children are being filled in, and \<^verbatim>\<open>stack\<close> holds, for every mark entered, the
  description that was \<^verbatim>\<open>top\<close> before and the index to go on with after the mark. Here
  \<open>top\<close> is that description as it is now, and an entry of \<open>stack\<close> holds the parent as it
  was when the mark was entered, the mark description being its child before the saved
  index; leaving the mark puts the finished mark description back at that place, which
  is where the source's parent sees it all along. \<open>preMatched\<close> holds the descriptions
  as \<^verbatim>\<open>preMatch\<close> found them; they are looked up by identity.
  \<open>wld\<close> is the world, \<open>rootPos\<close> the \<^verbatim>\<open>posAtStart\<close> of the description being updated.
\<close>

record updater =
  top :: desc
  lock :: "dom option"
  stack :: "(desc \<times> nat) list"
  index :: nat
  changed :: bool
  preMatched :: "desc list"
  preMatchOffset :: nat
  wld :: world
  rootPos :: int

text \<open>
  \<^verbatim>\<open>destroyBetween(start, end)\<close> and \<^verbatim>\<open>destroyRest()\<close>. (With \<open>start\<close> above \<open>end\<close> the
  source's loop and its \<^verbatim>\<open>splice\<close> do nothing, but \<^verbatim>\<open>changed\<close> is set.)
\<close>

definition destroyBetween :: "nat \<Rightarrow> nat \<Rightarrow> updater \<Rightarrow> updater" where
  "destroyBetween start ed u =
     (if start = ed then u
      else
        (let cs = children (top u) in
         u\<lparr>top := set_children (top u) (if start < ed then take start cs @ drop ed cs else cs),
           wld := destroy_all (take (ed - start) (drop start cs)) (wld u),
           changed := True\<rparr>))"

definition destroyRest :: "updater \<Rightarrow> updater" where
  "destroyRest u = destroyBetween (index u) (length (children (top u))) u"

text \<open>
  \<^verbatim>\<open>syncToMarks(marks, inline, view)\<close>, its three loops in turn. \<open>syncKeep\<close> counts the
  levels to keep: level \<open>keep\<close> is kept while its mark description (the top for the deepest
  level, else the description saved one entry further up the stack) matches the mark at
  that depth and the mark's type is not declared \<^verbatim>\<open>spanning: false\<close>.
\<close>

function syncKeep :: "updater \<Rightarrow> mark list \<Rightarrow> nat \<Rightarrow> nat" where
  "syncKeep u mks keep =
     (let depth = length (stack u);
          maxKeep = min depth (length mks)
      in if keep < maxKeep
            \<and> matchesMark (if keep = depth - 1 then top u else fst (stack u ! (keep + 1)))
                 (mks ! keep)
            \<and> spanning (mks ! keep) \<noteq> Some False
         then syncKeep u mks (keep + 1)
         else keep)"
  by pat_completeness auto
termination
  by (relation "measure (\<lambda>(u, mks, keep). min (length (stack u)) (length mks) - keep)")
     auto

declare syncKeep.simps [simp del]

text \<open>
  Leaving a mark: the rest of its children is destroyed, it is set clean, and the saved
  parent and index come back from the stack.
\<close>

definition popMark :: "updater \<Rightarrow> updater" where
  "popMark u =
     (let u1 = destroyRest u;
          t = set_dirty (top u1) NOT_DIRTY;
          parent = fst (last (stack u1));
          idx = snd (last (stack u1))
      in u1\<lparr>top := set_children parent ((children parent)[idx - 1 := t]),
            index := idx,
            stack := butlast (stack u1)\<rparr>)"

lemma stack_destroyBetween [simp]: "stack (destroyBetween a b u) = stack u"
  by (simp add: destroyBetween_def Let_def)

lemma stack_popMark [simp]: "stack (popMark u) = butlast (stack u)"
  by (simp add: popMark_def Let_def destroyRest_def)

function popMarks :: "nat \<Rightarrow> updater \<Rightarrow> updater" where
  "popMarks keep u = (if keep < length (stack u) then popMarks keep (popMark u) else u)"
  by pat_completeness auto
termination
  by (relation "measure (\<lambda>(keep, u). length (stack u))") auto

declare popMarks.simps [simp del]

text \<open>
  Entering a mark: a description matching the mark among the next three children is
  reused, what stands before it being destroyed; otherwise a new mark description is put
  in at the index.
\<close>

definition findMark :: "desc list \<Rightarrow> nat \<Rightarrow> mark \<Rightarrow> nat option" where
  "findMark cs idx m = find (\<lambda>i. matchesMark (cs ! i) m) [idx ..< min (idx + 3) (length cs)]"

definition pushMark :: "view \<Rightarrow> bool \<Rightarrow> mark \<Rightarrow> updater \<Rightarrow> updater" where
  "pushMark v inline m u =
     (case findMark (children (top u)) (index u) m of
        Some found \<Rightarrow>
          (let u1 = (if found > index u
                     then destroyBetween (index u) found (u\<lparr>changed := True\<rparr>)
                     else u)
           in u1\<lparr>stack := stack u1 @ [(top u1, index u1 + 1)],
                 top := children (top u1) ! index u1,
                 index := 0\<rparr>)
      | None \<Rightarrow>
          (case MarkViewDesc_create v m inline (wld u) of
             (markDesc, w') \<Rightarrow>
               (let cs = children (top u);
                    parent = set_children (top u) (take (index u) cs @ markDesc # drop (index u) cs)
                in u\<lparr>stack := stack u @ [(parent, index u + 1)],
                     top := markDesc,
                     index := 0,
                     changed := True,
                     wld := w'\<rparr>)))"

lemma stack_pushMark [simp]: "length (stack (pushMark v inline m u)) = Suc (length (stack u))"
  by (simp add: pushMark_def Let_def split: option.splits prod.splits)

function pushMarks :: "view \<Rightarrow> bool \<Rightarrow> mark list \<Rightarrow> updater \<Rightarrow> updater" where
  "pushMarks v inline mks u =
     (if length (stack u) < length mks
      then pushMarks v inline mks (pushMark v inline (mks ! length (stack u)) u)
      else u)"
  by pat_completeness auto
termination
  by (relation "measure (\<lambda>(v, inline, mks, u). length mks - length (stack u))") auto

declare pushMarks.simps [simp del]

definition syncToMarks :: "view \<Rightarrow> bool \<Rightarrow> mark list \<Rightarrow> updater \<Rightarrow> updater" where
  "syncToMarks v inline mks u = pushMarks v inline mks (popMarks (syncKeep u mks 0) u)"

text \<open>
  The mark descriptions the updater is inside of, outermost first, and the number of
  leading levels that keep their mark: the longest common prefix of the levels and the
  mks, a level and a mark agreeing when the description matches the mark and the mark's
  type is not declared non-spanning.
\<close>

definition levels :: "updater \<Rightarrow> desc list" where
  "levels u = (if stack u = [] then [] else tl (map fst (stack u)) @ [top u])"

definition agrees :: "desc \<Rightarrow> mark \<Rightarrow> bool" where
  "agrees d m =
     (case cls d of
        MarkViewDesc mk \<Rightarrow> mk = m \<and> spanning m \<noteq> Some False
      | _ \<Rightarrow> False)"

fun commonPrefix :: "desc list \<Rightarrow> mark list \<Rightarrow> nat" where
  "commonPrefix (d # ds) (m # ms) = (if agrees d m then Suc (commonPrefix ds ms) else 0)"
| "commonPrefix _ _ = 0"

text \<open>
  The children not yet visited of the levels that are left when the updater goes back to
  \<open>keep\<close> levels: those of the top after the index, then those of each saved parent after
  its saved index, deepest first.
\<close>

definition unvisitedAbove :: "nat \<Rightarrow> updater \<Rightarrow> desc list" where
  "unvisitedAbove keep u =
     (if keep < length (stack u)
      then drop (index u) (children (top u))
           @ concat (map (\<lambda>(p, idx). drop idx (children p)) (rev (drop (Suc keep) (stack u))))
      else [])"

text \<open>
  What a description is apart from its children: its identity, its class and its dirty
  level. And the outline of a description tree: the identities, nested as the
  descriptions are.
\<close>

definition hdr :: "desc \<Rightarrow> nat \<times> cls \<times> nat" where
  "hdr d = (oid d, cls d, dirty d)"

datatype outline = Outline nat "outline list"

fun outlineOf :: "desc \<Rightarrow> outline" where
  "outlineOf (Desc i c dty dm cd cs) = Outline i (map outlineOf cs)"


subsection \<open>Finding, updating, adding\<close>

text \<open>
  \<^verbatim>\<open>getPreMatch(index)\<close>; \<^verbatim>\<open>indexOf\<close> on an array of descriptions compares identities.
\<close>

definition getPreMatch :: "updater \<Rightarrow> int \<Rightarrow> desc option" where
  "getPreMatch u i =
     (if i \<ge> int (preMatchOffset u) \<and> nat (i - int (preMatchOffset u)) < length (preMatched u)
      then Some (preMatched u ! nat (i - int (preMatchOffset u)))
      else None)"

definition indexOfDesc :: "desc list \<Rightarrow> desc \<Rightarrow> nat option" where
  "indexOfDesc ds d = find (\<lambda>j. oid (ds ! j) = oid d) [0 ..< length ds]"

text \<open>
  \<^verbatim>\<open>findNodeMatch(node, outerDeco, innerDeco, index)\<close>: the pre-matched description of
  the child if it matches, else the first matching description among the next five that is
  not pre-matched; what stands before it is destroyed and the index moves past it. The
  index of the child is -1 for a piece of a cut text node.
\<close>

definition findNodeMatch ::
  "pnode \<Rightarrow> deco list \<Rightarrow> decoset \<Rightarrow> int \<Rightarrow> updater \<Rightarrow> bool \<times> updater" where
  "findNodeMatch n od idc i u =
     (let cs = children (top u);
          scan = find (\<lambda>j. matchesNode (cs ! j) n od idc \<and> indexOfDesc (preMatched u) (cs ! j) = None)
                   [index u ..< min (length cs) (index u + 5)];
          found = (case (if i < 0 then None else getPreMatch u i) of
                     Some pm \<Rightarrow> if matchesNode pm n od idc then indexOfDesc cs pm else scan
                   | None \<Rightarrow> scan)
      in case found of
           None \<Rightarrow> (False, u)
         | Some f \<Rightarrow>
             (let u1 = destroyBetween (index u) f u
              in (True, u1\<lparr>index := index u1 + 1\<rparr>)))"

text \<open>
  The guard of \<^verbatim>\<open>updateNextNode\<close>. A description holds the lock when its outer host node
  is the locked node or is an element that contains the locked node's parent. A text
  description is settled for an incoming text node when the host text already is the new
  text, the description is not at \<^verbatim>\<open>NODE_DIRTY\<close> and the outer decorations are the same.
  The update is locked when there is a lock, the description holds it, and it is not
  settled.
\<close>

definition isNodeDesc :: "desc \<Rightarrow> bool" where
  "isNodeDesc d = (case cls d of NodeViewDesc k n od idc nd \<Rightarrow> True | _ \<Rightarrow> False)"

definition holdsLock :: "host \<Rightarrow> dom \<Rightarrow> desc \<Rightarrow> bool" where
  "holdsLock h l next =
     (dom next = l \<or> (nodeType h (dom next) = 1 \<and> contains h (dom next) (parentNode h l)))"

definition settledText :: "host \<Rightarrow> desc \<Rightarrow> pnode \<Rightarrow> deco list \<Rightarrow> bool" where
  "settledText h next n od =
     (isText n \<and>
      (case cls next of
         NodeViewDesc k nn nod nidc nd \<Rightarrow>
           isText nn \<and> nodeValue h nd = ntext n \<and> dirty next \<noteq> NODE_DIRTY
           \<and> sameOuterDeco od nod
       | _ \<Rightarrow> False))"

definition locked :: "host \<Rightarrow> dom option \<Rightarrow> desc \<Rightarrow> pnode \<Rightarrow> deco list \<Rightarrow> bool" where
  "locked h lk next n od =
     (case lk of
        None \<Rightarrow> False
      | Some l \<Rightarrow> holdsLock h l next \<and> \<not> settledText h next n od)"

text \<open>
  The \<^verbatim>\<open>posAtStart\<close> of the child at index \<open>j\<close> of the top: the start of the description
  being updated, the sizes of the children already passed at every mark level, the sizes
  of the top's children before \<open>j\<close>, and the child's border.
\<close>

definition startOfChild :: "updater \<Rightarrow> nat \<Rightarrow> int" where
  "startOfChild u j =
     rootPos u
     + int (sum_list (map (\<lambda>(p, idx). sum_list (map vsize (take (idx - 1) (children p)))) (stack u)))
     + int (sum_list (map vsize (take j (children (top u)))))
     + int (border (children (top u) ! j))"

text \<open>
  The \<^verbatim>\<open>update\<close> method of a node description is an argument here (\<open>upd\<close>), since it calls
  back into the updater for the description's own children: given the world, the parent's
  content node, the description's start position, the description and the new node with
  its decorations, it answers whether it updated, with the description and world
  afterwards. No answer stands for an update that does not return. Likewise
  \<^verbatim>\<open>NodeViewDesc.create\<close> (\<open>mk\<close>).
\<close>

type_synonym updfn =
  "world \<Rightarrow> dom option \<Rightarrow> int \<Rightarrow> desc \<Rightarrow> pnode \<Rightarrow> deco list \<Rightarrow> decoset \<Rightarrow> (bool \<times> desc \<times> world) option"

type_synonym mkfn =
  "world \<Rightarrow> int \<Rightarrow> pnode \<Rightarrow> deco list \<Rightarrow> decoset \<Rightarrow> (desc \<times> world) option"

text \<open>
  \<^verbatim>\<open>updateNextNode(node, outerDeco, innerDeco, view, index)\<close>: the first node description
  from the index on is the candidate. It is left alone when it is pre-matched to another
  child, or when the update is locked; otherwise its \<^verbatim>\<open>update\<close> is tried, and on success
  what stands before it is destroyed and the index moves past it.
\<close>

definition updateNextNode ::
  "updfn \<Rightarrow> pnode \<Rightarrow> deco list \<Rightarrow> decoset \<Rightarrow> int \<Rightarrow> updater \<Rightarrow> (bool \<times> updater) option" where
  "updateNextNode upd n od idc i u =
     (let cs = children (top u) in
      case find (\<lambda>j. isNodeDesc (cs ! j)) [index u ..< length cs] of
        None \<Rightarrow> Some (False, u)
      | Some j \<Rightarrow>
          (let next = cs ! j in
           if (case indexOfDesc (preMatched u) next of
                 Some k \<Rightarrow> int k + int (preMatchOffset u) \<noteq> i
               | None \<Rightarrow> False)
           then Some (False, u)
           else if locked (hst (wld u)) (lock u) next n od then Some (False, u)
           else
             (case upd (wld u) (contentDOM (top u)) (startOfChild u j) next n od idc of
                None \<Rightarrow> None
              | Some (ok, next', w') \<Rightarrow>
                  (let u0 = u\<lparr>top := set_children (top u) (cs[j := next']), wld := w'\<rparr> in
                   if ok
                   then
                     (let u1 = destroyBetween (index u0) j u0;
                          u2 = (if dom next' \<noteq> dom next then u1\<lparr>changed := True\<rparr> else u1)
                      in Some (True, u2\<lparr>index := index u2 + 1\<rparr>))
                   else Some (False, u0)))))"

text \<open>\<^verbatim>\<open>addNode\<close>: a newly created node description goes in at the index.\<close>

definition addNode ::
  "mkfn \<Rightarrow> pnode \<Rightarrow> deco list \<Rightarrow> decoset \<Rightarrow> int \<Rightarrow> updater \<Rightarrow> updater option" where
  "addNode mk n od idc pos u =
     (case mk (wld u) pos n od idc of
        None \<Rightarrow> None
      | Some (d, w') \<Rightarrow>
          (let cs = children (top u)
           in Some (u\<lparr>top := set_children (top u) (take (index u) cs @ d # drop (index u) cs),
                      index := index u + 1,
                      changed := True,
                      wld := w'\<rparr>)))"

subsection \<open>Updating a text description\<close>

text \<open>
  \<^verbatim>\<open>updateOuterDeco\<close>: nothing happens when the outer decorations are the same; otherwise
  the wrappers around the node's own host node are patched (\<^verbatim>\<open>patchOuterDeco\<close>, which the
  view record answers for), the link moves along if the outer host node changed, and the
  new decorations are stored.
\<close>

definition updateOuterDeco :: "view \<Rightarrow> deco list \<Rightarrow> desc \<Rightarrow> world \<Rightarrow> desc \<times> world" where
  "updateOuterDeco v od d w =
     (case cls d of
        NodeViewDesc k n dod idc nd \<Rightarrow>
          if sameOuterDeco od dod then (d, w)
          else
            (case patchOuterDeco v (hst w) (fresh w) (dom d) nd dod od n (nodeType (hst w) nd \<noteq> 1) of
               (dm', h', f') \<Rightarrow>
                 (Desc (oid d) (NodeViewDesc k n od idc nd) (dirty d) dm' (contentDOM d) (children d),
                  w\<lparr>hst := h', fresh := f',
                    linked := (if dm' \<noteq> dom d
                               then ((linked w)(dom d := None))(dm' := Some (oid d))
                               else linked w),
                    events := events w @ [PatchOuterDeco nd]\<rparr>))
      | _ \<Rightarrow> (d, w))"

text \<open>
  \<^verbatim>\<open>inParent()\<close> walks from the text node up its parents looking for the parent
  description's content node: whether that node contains the text node.
\<close>

definition inParent :: "host \<Rightarrow> dom option \<Rightarrow> dom \<Rightarrow> bool" where
  "inParent h pcd nd = (case pcd of None \<Rightarrow> False | Some p \<Rightarrow> contains h p (Some nd))"

text \<open>
  \<^verbatim>\<open>TextViewDesc.update\<close>. The host text is written only when the description is dirty or
  the text differs from the description's, and the host text is not already the new text.
\<close>

definition TextViewDesc_update ::
  "view \<Rightarrow> world \<Rightarrow> dom option \<Rightarrow> desc \<Rightarrow> pnode \<Rightarrow> deco list \<Rightarrow> bool \<times> desc \<times> world" where
  "TextViewDesc_update v w pcd d n od =
     (case cls d of
        NodeViewDesc k dn dod idc nd \<Rightarrow>
          if dirty d = NODE_DIRTY
             \<or> (dirty d \<noteq> NOT_DIRTY \<and> \<not> inParent (hst w) pcd nd)
             \<or> \<not> sameMarkup n dn
          then (False, d, w)
          else
            (case updateOuterDeco v od d w of
               (d1, w1) \<Rightarrow>
                 (let w2 = (if (dirty d \<noteq> NOT_DIRTY \<or> ntext n \<noteq> ntext dn)
                               \<and> ntext n \<noteq> nodeValue (hst w1) nd
                            then w1\<lparr>hst := (hst w1)\<lparr>nodeValue := (nodeValue (hst w1))(nd := ntext n)\<rparr>,
                                    events := events w1 @ [SetNodeValue nd (ntext n)]\<rparr>
                            else w1)
                  in (True,
                      Desc (oid d1) (NodeViewDesc k n (outerDeco (cls d1)) idc nd) NOT_DIRTY
                        (dom d1) (contentDOM d1) (children d1),
                      w2)))
      | _ \<Rightarrow> (False, d, w))"

section \<open>Example values\<close>

definition ex_strong :: mark where
  "ex_strong = Mark ''strong'' [] None"

definition ex_text :: pnode where
  "ex_text = PNode 1 ''text'' [] [ex_strong] True True False False [97, 98, 99] 3 []"

definition ex_image :: pnode where
  "ex_image = PNode 2 ''image'' [] [] False True False False [] 1 []"

definition ex_paragraph :: pnode where
  "ex_paragraph = PNode 3 ''paragraph'' [] [] False False True True [] 5 [ex_text]"

definition ex_text_desc :: desc where
  "ex_text_desc = Desc 12 (NodeViewDesc TextNode ex_text [] 0 22) NOT_DIRTY 22 None []"

definition ex_mark_desc :: desc where
  "ex_mark_desc = Desc 11 (MarkViewDesc ex_strong) NOT_DIRTY 21 (Some 21) [ex_text_desc]"

definition ex_paragraph_desc :: desc where
  "ex_paragraph_desc =
     Desc 10 (NodeViewDesc PlainNode ex_paragraph [] 0 20) NOT_DIRTY 20 (Some 20) [ex_mark_desc]"

definition ex_image_desc :: desc where
  "ex_image_desc = Desc 13 (NodeViewDesc PlainNode ex_image [] 0 23) NOT_DIRTY 23 None []"

text \<open>
  A document with one paragraph that holds the text "ab" under the mark strong and the text
  "cd" under the mark em, and its descriptions: the two texts each in a mark description.
\<close>

definition ex_em :: mark where
  "ex_em = Mark ''em'' [] None"









text \<open>
  The host tree under the example paragraph: element 20, in it element 21, in it text 22.
  Beside it a host tree that no description manages: element 30 with the child 31.
\<close>

definition ex_host :: host where
  "ex_host = \<lparr>
     nodeType = (\<lambda>n. if n = 22 then 3 else 1),
     parentNode = (\<lambda>n. if n = 22 then Some 21 else if n = 21 then Some 20
                   else if n = 31 then Some 30 else None),
     childNodes = (\<lambda>n. if n = 20 then [21] else if n = 21 then [22]
                   else if n = 30 then [31] else []),
     nodeValue = (\<lambda>n. if n = 22 then [97, 98, 99] else []),
     contains = (\<lambda>a b. b = Some a \<or> (a = 20 \<and> (b = Some 21 \<or> b = Some 22))
                   \<or> (a = 21 \<and> b = Some 22) \<or> (a = 30 \<and> b = Some 31)),
     pmViewDesc = (\<lambda>n. if n = 20 then Some [] else if n = 21 then Some [0]
                   else if n = 22 then Some [0, 0] else None) \<rparr>"

text \<open>
  An editor showing state 5 while element 99 outside the view has the focus, with the caret
  in the text node 22 at offset 1; and a host whose \<^verbatim>\<open>Selection.modify\<close> moves the caret to
  offset 2.
\<close>

definition ex_selection :: selection where
  "ex_selection = \<lparr>ranges = [((22, 1), (22, 1))], focusNode = Some 22, focusOffset = 1,
     caretBidiLevel = None\<rparr>"

definition ex_editor :: editor where
  "ex_editor = \<lparr>vstate = 5, activeElement = Some 99, domSel = ex_selection\<rparr>"

definition ex_modify :: "string \<Rightarrow> selection \<Rightarrow> selection" where
  "ex_modify dir sel = sel\<lparr>ranges := [((22, 2), (22, 2))], focusOffset := 2\<rparr>"

text \<open>
  A first rendering of a paragraph with two text children, the first under the marks strong
  and em, the second under strong and code: a view whose mark descriptions hold their
  content in their own host node, a world whose next unused identity is 100, a constructor
  of text descriptions, the updater at the start of the empty paragraph, the updater after
  the first child (\<open>ex_u2\<close>) and the updater after the second child and the closing
  \<^verbatim>\<open>syncToMarks([])\<close> (\<open>ex_u5\<close>).
\<close>

definition ex_code :: mark where
  "ex_code = Mark ''code'' [] None"

definition ex_view :: view where
  "ex_view = \<lparr>composing = False, markShape = (\<lambda>m inline. ContentIsDom),
     patchOuterDeco = (\<lambda>h f dm nd old new n wrap. (dm, h, f))\<rparr>"

definition ex_world :: world where
  "ex_world = \<lparr>hst = ex_host, fresh = 100, linked = (\<lambda>n. None), events = []\<rparr>"

definition ex_mk :: mkfn where
  "ex_mk w pos n od idc =
     Some (Desc (fresh w) (NodeViewDesc TextNode n od idc (fresh w + 1)) NOT_DIRTY (fresh w + 1) None [],
           w\<lparr>fresh := fresh w + 2\<rparr>)"

definition ex_t1 :: pnode where
  "ex_t1 = PNode 4 ''text'' [] [ex_strong, ex_em] True True False False [97] 1 []"

definition ex_t2 :: pnode where
  "ex_t2 = PNode 5 ''text'' [] [ex_strong, ex_code] True True False False [98] 1 []"

definition ex_u0 :: updater where
  "ex_u0 = \<lparr>top = Desc 10 (NodeViewDesc PlainNode ex_paragraph [] 0 20) NOT_DIRTY 20 (Some 20) [],
     lock = None, stack = [], index = 0, changed = False, preMatched = [], preMatchOffset = 0,
     wld = ex_world, rootPos = 0\<rparr>"

definition ex_u2 :: updater where
  "ex_u2 = the (addNode ex_mk ex_t1 [] 0 0 (syncToMarks ex_view True [ex_strong, ex_em] ex_u0))"

definition ex_u5 :: updater where
  "ex_u5 = syncToMarks ex_view True []
     (the (addNode ex_mk ex_t2 [] 0 1 (syncToMarks ex_view True [ex_strong, ex_code] ex_u2)))"

text \<open>
  The updater after the first child when the em description still holds a child that was
  not visited, an image description left from an earlier rendering, to which its host node
  23 is linked.
\<close>

definition ex_u_rest :: updater where
  "ex_u_rest = ex_u2\<lparr>top := set_children (top ex_u2) (children (top ex_u2) @ [ex_image_desc]),
     wld := (wld ex_u2)\<lparr>linked := (linked (wld ex_u2))(23 := Some 13)\<rparr>\<rparr>"

text \<open>
  The same rendering with a mark whose type is declared \<^verbatim>\<open>spanning: false\<close> in the place of
  strong: the first child under link and em, the second under link and code.
\<close>

definition ex_link :: mark where
  "ex_link = Mark ''link'' [] (Some False)"

definition ex_t3 :: pnode where
  "ex_t3 = PNode 12 ''text'' [] [ex_link, ex_em] True True False False [97] 1 []"

definition ex_t4 :: pnode where
  "ex_t4 = PNode 13 ''text'' [] [ex_link, ex_code] True True False False [98] 1 []"

definition ex_u2_link :: updater where
  "ex_u2_link = the (addNode ex_mk ex_t3 [] 0 0 (syncToMarks ex_view True [ex_link, ex_em] ex_u0))"

definition ex_u5_link :: updater where
  "ex_u5_link = syncToMarks ex_view True []
     (the (addNode ex_mk ex_t4 [] 0 1 (syncToMarks ex_view True [ex_link, ex_code] ex_u2_link)))"

text \<open>
  An updater at the start of a paragraph whose only child is the text description over the
  host text node 22, with the composition lock on that node; an incoming text node with
  another text of the same length, one with the text that the host node already has; and
  \<^verbatim>\<open>TextViewDesc.update\<close> as the update method.
\<close>

definition ex_text_abd :: pnode where
  "ex_text_abd = PNode 6 ''text'' [] [ex_strong] True True False False [97, 98, 100] 3 []"

definition ex_text_same :: pnode where
  "ex_text_same = PNode 7 ''text'' [] [ex_strong] True True False False [97, 98, 99] 3 []"

definition ex_upd :: updfn where
  "ex_upd w pcd pos d n od idc = Some (TextViewDesc_update ex_view w pcd d n od)"

definition ex_u_lock :: updater where
  "ex_u_lock = \<lparr>top = Desc 10 (NodeViewDesc PlainNode ex_paragraph [] 0 20) NOT_DIRTY 20 (Some 20)
                        [ex_text_desc],
     lock = Some 22, stack = [], index = 0, changed = False, preMatched = [], preMatchOffset = 0,
     wld = ex_world, rootPos = 0\<rparr>"

section \<open>Properties\<close>

subsection \<open>Helper facts\<close>

lemma dirty_levels:
  "NOT_DIRTY = 0" "CHILD_DIRTY = 1" "CONTENT_DIRTY = 2" "NODE_DIRTY = 3"
  by (simp_all add: NOT_DIRTY_def CHILD_DIRTY_def CONTENT_DIRTY_def NODE_DIRTY_def)

lemma posAtStart_from_defined:
  "descAtPath d p = Some e \<Longrightarrow> \<exists>s. posAtStart_from st d p = Some s"
proof (induction p arbitrary: d st)
  case Nil
  then show ?case by simp
next
  case (Cons i p)
  then show ?case by (simp split: if_splits)
qed

text \<open>The four ways one round of the loop of \<^verbatim>\<open>markDirty\<close> can go.\<close>

lemma isMark_Desc [simp]: "isMark (Desc i c dty dm cd cs) = (case c of MarkViewDesc m \<Rightarrow> True | _ \<Rightarrow> False)"
  by (simp add: isMark_def)















subsection \<open>Matching and the dirty level\<close>

text \<open>
  Claim C1. Each of the four matching methods answers true for descriptions of its own
  class only: a description of any other class never matches. A widget, node or hack
  description matches exactly when it is clean and the candidate fits it, so one that is
  not clean matches nothing. A mark description matches exactly when it carries the
  candidate mark and is not at \<^verbatim>\<open>NODE_DIRTY\<close>: at \<^verbatim>\<open>CHILD_DIRTY\<close> and at \<^verbatim>\<open>CONTENT_DIRTY\<close> it
  still matches its own mark.
\<close>

theorem matches_need_clean:
  "(matchesWidget d w \<longleftrightarrow>
      (\<exists>wd. cls d = WidgetViewDesc wd \<and> type_eq (dtype w) (dtype wd)) \<and> dirty d = NOT_DIRTY)
   \<and> (matchesNode d n od idc \<longleftrightarrow>
      (\<exists>k dn dod nd. cls d = NodeViewDesc k dn dod idc nd \<and> node_eq n dn \<and> sameOuterDeco od dod)
      \<and> dirty d = NOT_DIRTY)
   \<and> (matchesHack d \<longleftrightarrow> cls d = BRHackViewDesc \<and> dirty d = NOT_DIRTY)
   \<and> (matchesMark d m \<longleftrightarrow> cls d = MarkViewDesc m \<and> dirty d \<noteq> NODE_DIRTY)
   \<and> (dirty d \<noteq> NOT_DIRTY \<longrightarrow>
      \<not> matchesWidget d w \<and> \<not> matchesNode d n od idc \<and> \<not> matchesHack d)
   \<and> (dirty d = NODE_DIRTY \<longrightarrow> \<not> matchesMark d m)
   \<and> (cls d = MarkViewDesc m \<and> (dirty d = CHILD_DIRTY \<or> dirty d = CONTENT_DIRTY)
        \<longrightarrow> matchesMark d m)
   \<and> ((\<forall>wd. cls d \<noteq> WidgetViewDesc wd) \<longrightarrow> \<not> matchesWidget d w)
   \<and> ((\<forall>k dn dod didc nd. cls d \<noteq> NodeViewDesc k dn dod didc nd) \<longrightarrow> \<not> matchesNode d n od idc)
   \<and> (cls d \<noteq> BRHackViewDesc \<longrightarrow> \<not> matchesHack d)
   \<and> ((\<forall>mk. cls d \<noteq> MarkViewDesc mk) \<longrightarrow> \<not> matchesMark d m)"
proof -
  have w: "matchesWidget d w \<longleftrightarrow>
      (\<exists>wd. cls d = WidgetViewDesc wd \<and> type_eq (dtype w) (dtype wd)) \<and> dirty d = NOT_DIRTY"
    by (cases "cls d") (auto simp: matchesWidget_def)
  have n: "matchesNode d n od idc \<longleftrightarrow>
      (\<exists>k dn dod nd. cls d = NodeViewDesc k dn dod idc nd \<and> node_eq n dn \<and> sameOuterDeco od dod)
      \<and> dirty d = NOT_DIRTY"
    by (cases "cls d") (auto simp: matchesNode_def)
  have h: "matchesHack d \<longleftrightarrow> cls d = BRHackViewDesc \<and> dirty d = NOT_DIRTY"
    by (cases "cls d") (auto simp: matchesHack_def)
  have m: "matchesMark d m \<longleftrightarrow> cls d = MarkViewDesc m \<and> dirty d \<noteq> NODE_DIRTY"
    by (cases "cls d") (auto simp: matchesMark_def)
  have lv: "CHILD_DIRTY \<noteq> NODE_DIRTY" "CONTENT_DIRTY \<noteq> NODE_DIRTY"
    by (simp_all add: dirty_levels)
  have c5: "dirty d \<noteq> NOT_DIRTY \<longrightarrow>
      \<not> matchesWidget d w \<and> \<not> matchesNode d n od idc \<and> \<not> matchesHack d"
    using w n h by blast
  have c6: "dirty d = NODE_DIRTY \<longrightarrow> \<not> matchesMark d m"
    using m by blast
  have c7: "cls d = MarkViewDesc m \<and> (dirty d = CHILD_DIRTY \<or> dirty d = CONTENT_DIRTY)
        \<longrightarrow> matchesMark d m"
    using m lv by metis
  have c8: "(\<forall>wd. cls d \<noteq> WidgetViewDesc wd) \<longrightarrow> \<not> matchesWidget d w"
    using w by blast
  have c9: "(\<forall>k dn dod didc nd. cls d \<noteq> NodeViewDesc k dn dod didc nd) \<longrightarrow> \<not> matchesNode d n od idc"
    using n by blast
  have c10: "cls d \<noteq> BRHackViewDesc \<longrightarrow> \<not> matchesHack d"
    using h by blast
  have c11: "(\<forall>mk. cls d \<noteq> MarkViewDesc mk) \<longrightarrow> \<not> matchesMark d m"
    using m by blast
  from w n h m c5 c6 c7 c8 c9 c10 c11 show ?thesis
    by (intro conjI)
qed

theorem matches_need_clean_witness:
  "dirty (set_dirty ex_text_desc CHILD_DIRTY) \<noteq> NOT_DIRTY
   \<and> \<not> matchesNode (set_dirty ex_text_desc CHILD_DIRTY) ex_text [] 0
   \<and> matchesNode ex_text_desc ex_text [] 0
   \<and> dirty (set_dirty ex_mark_desc NODE_DIRTY) = NODE_DIRTY
   \<and> \<not> matchesMark (set_dirty ex_mark_desc NODE_DIRTY) ex_strong
   \<and> cls (set_dirty ex_mark_desc CHILD_DIRTY) = MarkViewDesc ex_strong
   \<and> dirty (set_dirty ex_mark_desc CHILD_DIRTY) = CHILD_DIRTY
   \<and> matchesMark (set_dirty ex_mark_desc CHILD_DIRTY) ex_strong
   \<and> (\<forall>wd. cls ex_mark_desc \<noteq> WidgetViewDesc wd)
   \<and> \<not> matchesWidget ex_mark_desc (Decoration 1 0 0 (WidgetType 0 0 [] None))
   \<and> cls ex_text_desc \<noteq> BRHackViewDesc
   \<and> \<not> matchesHack ex_text_desc
   \<and> (\<forall>mk. cls ex_text_desc \<noteq> MarkViewDesc mk)
   \<and> \<not> matchesMark ex_text_desc ex_strong
   \<and> (\<forall>k dn dod didc nd. cls ex_mark_desc \<noteq> NodeViewDesc k dn dod didc nd)
   \<and> \<not> matchesNode ex_mark_desc ex_text [] 0"
proof -
  have a: "dirty (set_dirty ex_text_desc CHILD_DIRTY) \<noteq> NOT_DIRTY"
    by (simp add: set_dirty_def dirty_levels)
  have b: "dirty (set_dirty ex_mark_desc NODE_DIRTY) = NODE_DIRTY"
    by (simp add: set_dirty_def)
  have c: "(\<exists>k dn dod nd. cls ex_text_desc = NodeViewDesc k dn dod 0 nd \<and> node_eq ex_text dn
             \<and> sameOuterDeco [] dod) \<and> dirty ex_text_desc = NOT_DIRTY"
    by (simp add: ex_text_desc_def node_eq_def)
  have d: "cls (set_dirty ex_mark_desc CHILD_DIRTY) = MarkViewDesc ex_strong"
          "dirty (set_dirty ex_mark_desc CHILD_DIRTY) = CHILD_DIRTY"
    by (simp_all add: set_dirty_def ex_mark_desc_def)
  have e: "\<forall>wd. cls ex_mark_desc \<noteq> WidgetViewDesc wd"
          "\<forall>k dn dod didc nd. cls ex_mark_desc \<noteq> NodeViewDesc k dn dod didc nd"
    by (simp_all add: ex_mark_desc_def)
  have f: "cls ex_text_desc \<noteq> BRHackViewDesc" "\<forall>mk. cls ex_text_desc \<noteq> MarkViewDesc mk"
    by (simp_all add: ex_text_desc_def)
  have g: "matchesNode ex_text_desc ex_text [] 0"
    using c matches_need_clean [of ex_text_desc undefined ex_text "[]" 0 undefined] by blast
  have h: "\<not> matchesNode (set_dirty ex_text_desc CHILD_DIRTY) ex_text [] 0"
    using a matches_need_clean [of "set_dirty ex_text_desc CHILD_DIRTY" undefined ex_text "[]" 0 undefined]
    by blast
  have i: "\<not> matchesMark (set_dirty ex_mark_desc NODE_DIRTY) ex_strong"
    using b matches_need_clean [of "set_dirty ex_mark_desc NODE_DIRTY" undefined undefined "[]" 0 ex_strong]
    by blast
  have j: "matchesMark (set_dirty ex_mark_desc CHILD_DIRTY) ex_strong"
    using d matches_need_clean [of "set_dirty ex_mark_desc CHILD_DIRTY" undefined undefined "[]" 0 ex_strong]
    by blast
  have k: "\<not> matchesWidget ex_mark_desc (Decoration 1 0 0 (WidgetType 0 0 [] None))"
          "\<not> matchesNode ex_mark_desc ex_text [] 0"
    using e matches_need_clean [of ex_mark_desc "Decoration 1 0 0 (WidgetType 0 0 [] None)" ex_text "[]" 0 ex_strong]
    by blast+
  have l: "\<not> matchesHack ex_text_desc" "\<not> matchesMark ex_text_desc ex_strong"
    using f matches_need_clean [of ex_text_desc undefined ex_text "[]" 0 ex_strong]
    by blast+
  from a b d e f g h i j k l show ?thesis by (intro conjI)
qed

text \<open>
  The claim as stated fails for mark descriptions: after \<^verbatim>\<open>markParentsDirty\<close> on the text
  inside, the mark description is at \<^verbatim>\<open>CONTENT_DIRTY\<close> and \<^verbatim>\<open>matchesMark\<close> still answers
  true.
\<close>

theorem matchesMark_dirty_counterexample:
  "descAtPath (markParentsDirty ex_paragraph_desc [0, 0]) [0]
     = Some (set_dirty ex_mark_desc CONTENT_DIRTY)
   \<and> dirty (set_dirty ex_mark_desc CONTENT_DIRTY) \<noteq> NOT_DIRTY
   \<and> matchesMark (set_dirty ex_mark_desc CONTENT_DIRTY) ex_strong"
  by (simp add: ex_paragraph_desc_def ex_mark_desc_def set_dirty_def matchesMark_def
        dirty_levels)

subsection \<open>Size and border of a node description\<close>

text \<open>
  Claim C5. A node description's size is its node's \<^verbatim>\<open>nodeSize\<close> and its border is 1
  exactly when the node is not a leaf. With the document model's sizes, the size of a
  description of a node with content is the content's size plus twice the border; the size
  of a leaf description is the text's length for a text node and 1 for any other leaf.
\<close>

theorem NodeViewDesc_size_border:
  assumes "cls d = NodeViewDesc k n od idc nd" and "model_sizes n"
  shows "vsize d = nodeSize n
         \<and> border d = (if isLeaf n then 0 else 1)
         \<and> vsize d = (if isText n then length (ntext n)
                      else if isLeaf n then 1
                      else content_size n + 2 * border d)"
  using assms by (cases d) (auto simp: border_def model_sizes_def split: if_splits)

theorem NodeViewDesc_size_border_witness:
  "cls ex_paragraph_desc = NodeViewDesc PlainNode ex_paragraph [] 0 20
   \<and> model_sizes ex_paragraph
   \<and> vsize ex_paragraph_desc = 5 \<and> content_size ex_paragraph = 3
   \<and> border ex_paragraph_desc = 1"
proof -
  have a: "cls ex_paragraph_desc = NodeViewDesc PlainNode ex_paragraph [] 0 20"
    by (simp add: ex_paragraph_desc_def)
  have b: "model_sizes ex_paragraph"
    by (simp add: model_sizes_def ex_paragraph_def ex_text_def content_size_def)
  have c: "content_size ex_paragraph = 3" "\<not> isLeaf ex_paragraph" "\<not> isText ex_paragraph"
    by (simp_all add: ex_paragraph_def ex_text_def content_size_def)
  from NodeViewDesc_size_border [OF a b] a b c show ?thesis by simp
qed

text \<open>
  The claim as stated fails at a leaf: an image has no content, its description has border
  0, and its size is 1.
\<close>

theorem leaf_size_counterexample:
  "cls ex_image_desc = NodeViewDesc PlainNode ex_image [] 0 23
   \<and> model_sizes ex_image \<and> isLeaf ex_image
   \<and> content_size ex_image = 0 \<and> border ex_image_desc = 0
   \<and> vsize ex_image_desc = 1
   \<and> vsize ex_image_desc \<noteq> content_size ex_image + 2 * border ex_image_desc"
  by (simp add: ex_image_desc_def ex_image_def model_sizes_def content_size_def border_def)

subsection \<open>Positions inside a text description\<close>

text \<open>
  Claim C10. For a text description and an offset into its own host text node,
  \<^verbatim>\<open>localPosFromDOM\<close> is the start position plus the smaller of the offset and the text's
  length, and that is at most the description's end position.
\<close>

theorem text_localPosFromDOM_bounded:
  assumes "descAtPath root p = Some d"
    and "cls d = NodeViewDesc TextNode n od idc nd"
    and "isText n" and "model_sizes n"
  shows "\<exists>s e. posAtStart root p = Some s \<and> posAtEnd root p = Some e
           \<and> TextViewDesc_localPosFromDOM super root p nd offset bias
               = Some (s + min offset (int (length (ntext n))))
           \<and> s + min offset (int (length (ntext n))) \<le> e"
proof -
  obtain s where s: "posAtStart root p = Some s"
    using posAtStart_from_defined [OF assms(1)] by (auto simp: posAtStart_def)
  have sz: "vsize d = length (ntext n)" "border d = 0"
    using assms(2,3,4) by (cases d; simp add: model_sizes_def border_def)+
  have e: "posAtEnd root p = Some (s + int (length (ntext n)))"
    using s assms(1) sz by (simp add: posAtEnd_def)
  have r: "TextViewDesc_localPosFromDOM super root p nd offset bias
             = Some (s + min offset (int (length (ntext n))))"
    using assms(1,2) s by (cases d) (simp add: TextViewDesc_localPosFromDOM_def)
  from s e r show ?thesis by simp
qed

theorem text_localPosFromDOM_bounded_witness:
  "descAtPath ex_paragraph_desc [0, 0] = Some ex_text_desc
   \<and> isText ex_text \<and> model_sizes ex_text
   \<and> posAtStart ex_paragraph_desc [0, 0] = Some 0
   \<and> posAtEnd ex_paragraph_desc [0, 0] = Some 3
   \<and> TextViewDesc_localPosFromDOM (\<lambda>a b c. None) ex_paragraph_desc [0, 0] 22 7 1 = Some 3"
proof -
  have a: "descAtPath ex_paragraph_desc [0, 0] = Some ex_text_desc"
    by (simp add: ex_paragraph_desc_def ex_mark_desc_def)
  have b: "cls ex_text_desc = NodeViewDesc TextNode ex_text [] 0 22"
    by (simp add: ex_text_desc_def)
  have c: "isText ex_text" "model_sizes ex_text" "length (ntext ex_text) = 3"
    by (simp_all add: ex_text_def model_sizes_def)
  have s: "posAtStart ex_paragraph_desc [0, 0] = Some 0"
    by (simp add: posAtStart_def posBeforeChild_def border_def ex_paragraph_desc_def
          ex_mark_desc_def ex_text_desc_def ex_text_def)
  have e: "posAtEnd ex_paragraph_desc [0, 0] = Some 3"
    using s a by (simp add: posAtEnd_def ex_text_desc_def ex_text_def border_def)
  from text_localPosFromDOM_bounded [OF a b c(1) c(2), of "\<lambda>a b c. None" 7 1] a c s e
  show ?thesis by auto
qed

subsection \<open>Marking a range dirty\<close>


lemma ex_text_facts:
  "vsize ex_text_desc = 3" "border ex_text_desc = 0" "dom ex_text_desc = 22"
  "contentLost ex_host ex_text_desc = False"
  "markDirty ex_host ex_text_desc a b = (set_dirty ex_text_desc CONTENT_DIRTY, 0)"
  "dirtyTrail ex_host ex_text_desc a b = ([], False)"
  by (simp_all add: ex_text_desc_def ex_text_def border_def contentLost_def set_dirty_def
        dirty_levels)


lemma ex_mark_facts:
  "vsize ex_mark_desc = 3" "border ex_mark_desc = 0" "dom ex_mark_desc = 21"
  "contentLost ex_host ex_mark_desc = False"
  by (simp_all add: ex_mark_desc_def ex_text_facts border_def contentLost_def)








subsection \<open>Positions that no child holds\<close>

lemma domFromPos_loop_beyond:
  "offset + int (sum_list (map vsize cs)) < pos \<Longrightarrow>
     domFromPos_loop h cdom cs offset pos = Inl (InvalidPosition pos)"
  by (induction cs arbitrary: offset) (auto simp: Let_def)

text \<open>
  Claim C7. For a description that walks over its children, \<^verbatim>\<open>domFromPos\<close> raises
  \<^verbatim>\<open>Invalid position\<close> for every position greater than the sum of the children's sizes,
  and for every position other than 0 when there are no children.
\<close>

theorem domFromPos_invalid:
  assumes "walksChildren d"
    and "int (sum_list (map vsize (children d))) < pos \<or> (children d = [] \<and> pos \<noteq> 0)"
  shows "domFromPos h d pos = Inl (InvalidPosition pos)"
proof (cases d)
  case (Desc i c dty dm cd cs)
  from assms(1) Desc obtain cdom where cd: "cd = Some cdom"
    by (auto simp: walksChildren_def)
  from assms(2) Desc have "domFromPos_loop h cdom cs 0 pos = Inl (InvalidPosition pos)"
    using domFromPos_loop_beyond [of 0 cs pos h cdom] by auto
  with assms(1) Desc cd show ?thesis
    by (auto simp: walksChildren_def split: cls.splits nodekind.splits)
qed

theorem domFromPos_invalid_witness:
  "walksChildren ex_paragraph_desc
   \<and> int (sum_list (map vsize (children ex_paragraph_desc))) < 4
   \<and> domFromPos ex_host ex_paragraph_desc 4 = Inl (InvalidPosition 4)
   \<and> domFromPos ex_host ex_paragraph_desc 2 = Inr (22, 2)
   \<and> domFromPos ex_host ex_paragraph_desc 3 = Inr (20, 1)"
proof -
  have a: "walksChildren ex_paragraph_desc"
    by (simp add: walksChildren_def ex_paragraph_desc_def)
  have b: "int (sum_list (map vsize (children ex_paragraph_desc))) < 4"
    by (simp add: ex_paragraph_desc_def ex_mark_facts)
  have c: "domFromPos ex_host ex_mark_desc 2 = Inr (22, 2)"
    by (simp add: ex_mark_desc_def ex_text_facts) (simp add: ex_text_desc_def)
  have d: "domFromPos ex_host ex_paragraph_desc 2 = Inr (22, 2)"
    by (simp add: ex_paragraph_desc_def ex_mark_facts c)
  have e: "domFromPos ex_host ex_paragraph_desc 3 = Inr (20, 1)"
    by (simp add: ex_paragraph_desc_def ex_mark_facts ex_host_def)
  from domFromPos_invalid [OF a, of 4 ex_host] a b d e show ?thesis by simp
qed

text \<open>
  The claim as stated fails below the span: the position -1 is outside what the children
  of the example paragraph hold, and \<^verbatim>\<open>domFromPos\<close> hands it down to the first child and
  returns the text node with offset -1.
\<close>

theorem domFromPos_negative_counterexample:
  "walksChildren ex_paragraph_desc
   \<and> domFromPos ex_host ex_paragraph_desc (- 1) = Inr (22, - 1)"
proof -
  have a: "walksChildren ex_paragraph_desc"
    by (simp add: walksChildren_def ex_paragraph_desc_def)
  have c: "domFromPos ex_host ex_mark_desc (- 1) = Inr (22, - 1)"
    by (simp add: ex_mark_desc_def ex_text_facts) (simp add: ex_text_desc_def)
  have d: "domFromPos ex_host ex_paragraph_desc (- 1) = Inr (22, - 1)"
    by (simp add: ex_paragraph_desc_def ex_mark_facts c)
  from a d show ?thesis by simp
qed

subsection \<open>Host locations outside the description tree\<close>

lemma posFromDOM_scan_absent:
  "parentChain h n ms \<Longrightarrow> \<forall>x \<in> set (n # ms). getDesc h this x = None \<Longrightarrow>
     posFromDOM_scan lp h this (Some n) dm offset bias = Some (- 1)"
proof (induction ms arbitrary: n)
  case Nil
  then show ?case
    by (simp add: posFromDOM_scan.simps [of lp h this "Some n"]
          posFromDOM_scan.simps [of lp h this None])
next
  case (Cons m ms)
  from Cons.prems have "posFromDOM_scan lp h this (Some m) dm offset bias = Some (- 1)"
    by (intro Cons.IH) auto
  with Cons.prems show ?case
    by (simp add: posFromDOM_scan.simps [of lp h this "Some n"])
qed

text \<open>
  Claim C8. When neither the host node nor any of its ancestors up to the root of the host
  tree has a description under \<^verbatim>\<open>this\<close> (in particular when none of them has a description at
  all), \<^verbatim>\<open>posFromDOM\<close> returns, and what it returns is the absent position -1.
\<close>

theorem posFromDOM_absent:
  assumes "parentChain h dm ms"
    and "\<forall>x \<in> set (dm # ms). pmViewDesc h x = None \<or> getDesc h this x = None"
  shows "posFromDOM lp h this dm offset bias = Some (- 1)"
proof -
  from assms(2) have "\<forall>x \<in> set (dm # ms). getDesc h this x = None"
    by (auto simp: getDesc_def)
  from posFromDOM_scan_absent [OF assms(1) this] show ?thesis
    by (simp add: posFromDOM_def)
qed

theorem posFromDOM_absent_witness:
  "parentChain ex_host 31 [30]
   \<and> pmViewDesc ex_host 31 = None \<and> pmViewDesc ex_host 30 = None
   \<and> posFromDOM (\<lambda>q d off b. 0) ex_host [] 31 0 1 = Some (- 1)"
proof -
  have a: "parentChain ex_host 31 [30]"
    by (simp add: ex_host_def)
  have b: "pmViewDesc ex_host 31 = None" "pmViewDesc ex_host 30 = None"
    by (simp_all add: ex_host_def)
  from a b posFromDOM_absent [OF a, of "[]" "\<lambda>q d off b. 0" 0 1] show ?thesis
    by simp
qed

subsection \<open>What a reversible probe restores\<close>

lemma horizontalProbe_frame:
  "vstate (snd (horizontalProbe modify h docView viewdom depth before dir x)) = vstate x"
  "activeElement (snd (horizontalProbe modify h docView viewdom depth before dir x))
     = activeElement x"
  by (simp_all add: horizontalProbe_def Let_def
        split: list.splits sum.splits option.splits)

lemma horizontalProbe_returns:
  assumes "fst (horizontalProbe modify h docView viewdom depth before dir x) = Inr b"
  shows "\<exists>r rs. ranges (domSel x) = r # rs
           \<and> ranges (domSel (snd (horizontalProbe modify h docView viewdom depth before dir x)))
               = [r]
           \<and> (caretBidiLevel (domSel x) \<noteq> None \<longrightarrow>
                caretBidiLevel
                  (domSel (snd (horizontalProbe modify h docView viewdom depth before dir x)))
                  = caretBidiLevel (domSel x))"
  using assms
  by (auto simp: horizontalProbe_def Let_def split: list.splits sum.splits option.splits)

lemma withFlushedState_restores:
  assumes "\<And>x. vstate (snd (f x)) = vstate x"
    and "\<And>x. activeElement (snd (f x)) = activeElement x"
  shows "fst (withFlushedState viewdom st f e) = fst (f (flushed viewdom st e))"
    and "vstate (snd (withFlushedState viewdom st f e)) = vstate e"
    and "activeElement e \<noteq> None \<Longrightarrow>
           activeElement (snd (withFlushedState viewdom st f e)) = activeElement e"
    and "activeElement e = None \<Longrightarrow>
           activeElement (snd (withFlushedState viewdom st f e)) = Some viewdom"
    and "domSel (snd (withFlushedState viewdom st f e)) = domSel (snd (f (flushed viewdom st e)))"
proof -
  obtain r e3 where f: "f (flushed viewdom st e) = (r, e3)"
    by (cases "f (flushed viewdom st e)") auto
  have fl: "vstate (flushed viewdom st e) = st"
    "activeElement (flushed viewdom st e) = Some viewdom"
    by (simp_all add: flushed_def updateState_def focus_def Let_def)
  from assms [of "flushed viewdom st e"] f fl
  have e3: "vstate e3 = st" "activeElement e3 = Some viewdom"
    by simp_all
  have W: "withFlushedState viewdom st f e =
      (r, case activeElement e of
            Some a \<Rightarrow>
              if a \<noteq> viewdom
              then focus a (if vstate e \<noteq> st then updateState (vstate e) e3 else e3)
              else (if vstate e \<noteq> st then updateState (vstate e) e3 else e3)
          | None \<Rightarrow> (if vstate e \<noteq> st then updateState (vstate e) e3 else e3))"
    by (simp add: withFlushedState_def Let_def f)
  show "fst (withFlushedState viewdom st f e) = fst (f (flushed viewdom st e))"
    by (simp add: W f)
  show "vstate (snd (withFlushedState viewdom st f e)) = vstate e"
    using e3 by (simp add: W updateState_def focus_def split: option.splits)
  show "activeElement (snd (withFlushedState viewdom st f e)) = activeElement e"
    if "activeElement e \<noteq> None"
    using that e3 by (auto simp: W updateState_def focus_def split: option.splits)
  show "activeElement (snd (withFlushedState viewdom st f e)) = Some viewdom"
    if "activeElement e = None"
    using that e3 by (simp add: W updateState_def focus_def)
  show "domSel (snd (withFlushedState viewdom st f e)) = domSel (snd (f (flushed viewdom st e)))"
    by (simp add: W f updateState_def focus_def split: option.splits)
qed

text \<open>
  Claim C9. \<^verbatim>\<open>withFlushedState\<close> hands on the outcome of its probe, a value or an error,
  and for a probe that itself leaves the applied state and the focus alone it ends with
  the applied state it started with, on either outcome; it ends with the focus it started
  with when some element had the focus, and with the focus on the view when none had. It
  leaves the native selection as the probe left it. The horizontal probe leaves the applied
  state and the focus alone, and when it returns a value the native selection is again the
  one range it started with (and the caret's bidi level, where there was one).
\<close>

theorem probes_restore:
  "((\<forall>x. vstate (snd (f x)) = vstate x \<and> activeElement (snd (f x)) = activeElement x) \<longrightarrow>
      fst (withFlushedState viewdom st f e) = fst (f (flushed viewdom st e))
      \<and> vstate (snd (withFlushedState viewdom st f e)) = vstate e
      \<and> (activeElement e \<noteq> None \<longrightarrow>
           activeElement (snd (withFlushedState viewdom st f e)) = activeElement e)
      \<and> (activeElement e = None \<longrightarrow>
           activeElement (snd (withFlushedState viewdom st f e)) = Some viewdom)
      \<and> domSel (snd (withFlushedState viewdom st f e)) = domSel (snd (f (flushed viewdom st e))))
   \<and> vstate (snd (horizontalProbe modify h docView viewdom depth before dir x)) = vstate x
   \<and> activeElement (snd (horizontalProbe modify h docView viewdom depth before dir x))
       = activeElement x
   \<and> (\<forall>b. fst (horizontalProbe modify h docView viewdom depth before dir x) = Inr b \<longrightarrow>
        (\<exists>r rs. ranges (domSel x) = r # rs
           \<and> ranges (domSel (snd (horizontalProbe modify h docView viewdom depth before dir x)))
               = [r]
           \<and> (caretBidiLevel (domSel x) \<noteq> None \<longrightarrow>
                caretBidiLevel
                  (domSel (snd (horizontalProbe modify h docView viewdom depth before dir x)))
                  = caretBidiLevel (domSel x))))"
  using withFlushedState_restores [where f = f and viewdom = viewdom and st = st and e = e]
    horizontalProbe_frame [of modify h docView viewdom depth before dir x]
    horizontalProbe_returns [of modify h docView viewdom depth before dir x]
  by (intro conjI impI allI) (simp_all; blast)+

lemma ex_probe_moves:
  "horizontalProbe ex_modify ex_host ex_paragraph_desc 20 0 0 ''forward''
       (flushed 20 7 ex_editor)
     = (Inr False, \<lparr>vstate = 7, activeElement = Some 20, domSel = ex_selection\<rparr>)"
  by (simp add: horizontalProbe_def flushed_def ex_editor_def ex_selection_def ex_modify_def
        updateState_def focus_def Let_def ex_host_def)

theorem probes_restore_witness:
  "withFlushedState 20 7 (horizontalProbe ex_modify ex_host ex_paragraph_desc 20 0 0 ''forward'')
       ex_editor
     = (Inr False, ex_editor)"
proof -
  let ?P = "horizontalProbe ex_modify ex_host ex_paragraph_desc 20 0 0 ''forward''"
  have a: "\<forall>x. vstate (snd (?P x)) = vstate x \<and> activeElement (snd (?P x)) = activeElement x"
    by (simp add: horizontalProbe_frame)
  have b: "activeElement ex_editor \<noteq> None" "vstate ex_editor = 5"
    "activeElement ex_editor = Some 99"
    by (simp_all add: ex_editor_def)
  from probes_restore [of ?P 20 7 ex_editor ex_modify ex_host ex_paragraph_desc 0 0
      "''forward''" "flushed 20 7 ex_editor"] a b
  have "fst (withFlushedState 20 7 ?P ex_editor) = Inr False
        \<and> vstate (snd (withFlushedState 20 7 ?P ex_editor)) = 5
        \<and> activeElement (snd (withFlushedState 20 7 ?P ex_editor)) = Some 99
        \<and> domSel (snd (withFlushedState 20 7 ?P ex_editor)) = ex_selection"
    by (simp add: ex_probe_moves)
  then show ?thesis
    by (cases "withFlushedState 20 7 ?P ex_editor") (simp add: ex_editor_def)
qed

text \<open>
  The claim as stated fails in two places. When no element has the focus, the view takes
  it and the \<^verbatim>\<open>finally\<close> block has nothing to give it back to. And when the horizontal probe
  raises after \<^verbatim>\<open>Selection.modify\<close> (here \<^verbatim>\<open>domAfterPos\<close> finds a text node at the position
  and raises a range error), the native selection stays where \<^verbatim>\<open>modify\<close> put it.
\<close>

theorem probes_restore_counterexample:
  "activeElement (ex_editor\<lparr>activeElement := None\<rparr>) = None
   \<and> activeElement (snd (withFlushedState 20 7
          (horizontalProbe ex_modify ex_host ex_paragraph_desc 20 0 0 ''forward'')
          (ex_editor\<lparr>activeElement := None\<rparr>))) = Some 20
   \<and> withFlushedState 20 7
          (horizontalProbe ex_modify ex_host ex_paragraph_desc 20 1 2 ''forward'') ex_editor
       = (Inl RangeError, ex_editor\<lparr>domSel := ex_modify ''forward'' ex_selection\<rparr>)
   \<and> ranges (ex_modify ''forward'' ex_selection) \<noteq> ranges ex_selection"
proof -
  have d: "domFromPos ex_host ex_paragraph_desc 2 = Inr (22, 2)"
    by (simp add: ex_paragraph_desc_def ex_mark_facts)
       (simp add: ex_mark_desc_def ex_text_facts, simp add: ex_text_desc_def)
  have a: "domAfterPos ex_host ex_paragraph_desc 2 = Inl RangeError"
    by (simp add: domAfterPos_def d) (simp add: ex_host_def)
  show ?thesis
    by (simp add: withFlushedState_def horizontalProbe_def flushed_def ex_editor_def
          ex_selection_def ex_modify_def updateState_def focus_def Let_def a)
qed

subsection \<open>The marks that \<^verbatim>\<open>syncToMarks\<close> keeps\<close>

lemma agrees_iff: "agrees d m = (cls d = MarkViewDesc m \<and> spanning m \<noteq> Some False)"
  by (auto simp: agrees_def split: cls.splits)

lemma length_levels [simp]: "length (levels u) = length (stack u)"
  by (simp add: levels_def)

lemma levels_nth:
  "k < length (stack u) \<Longrightarrow>
     levels u ! k = (if k = length (stack u) - 1 then top u else fst (stack u ! (k + 1)))"
  by (auto simp: levels_def nth_append nth_tl)

lemma matchesMark_iff: "matchesMark d m = (cls d = MarkViewDesc m \<and> dirty d \<noteq> NODE_DIRTY)"
  by (auto simp: matchesMark_def split: cls.splits)

lemma commonPrefix_le: "commonPrefix ds ms \<le> min (length ds) (length ms)"
  by (induction ds ms rule: commonPrefix.induct) auto

lemma commonPrefix_drop:
  "k < length ds \<Longrightarrow> k < length ms \<Longrightarrow>
     commonPrefix (drop k ds) (drop k ms) =
       (if agrees (ds ! k) (ms ! k) then Suc (commonPrefix (drop (Suc k) ds) (drop (Suc k) ms)) else 0)"
  by (simp add: Cons_nth_drop_Suc [symmetric])

lemma syncKeep_unfold:
  "syncKeep u mks keep =
     (if keep < min (length (stack u)) (length mks)
         \<and> matchesMark (if keep = length (stack u) - 1 then top u else fst (stack u ! (keep + 1)))
              (mks ! keep)
         \<and> spanning (mks ! keep) \<noteq> Some False
      then syncKeep u mks (keep + 1)
      else keep)"
  by (subst syncKeep.simps) (simp only: Let_def)

lemma syncKeep_prefix:
  "\<forall>d \<in> set (levels u). dirty d \<noteq> NODE_DIRTY \<Longrightarrow>
   keep \<le> min (length (stack u)) (length mks) \<Longrightarrow>
     syncKeep u mks keep = keep + commonPrefix (drop keep (levels u)) (drop keep mks)"
proof (induction u mks keep rule: syncKeep.induct)
  case (1 u mks keep)
  note assms = 1(2)
  show ?case
  proof (cases "keep < min (length (stack u)) (length mks)")
    case False
    with 1(3) have "keep = min (length (stack u)) (length mks)" by (auto simp: min_def)
    then have "commonPrefix (drop keep (levels u)) (drop keep mks) = 0"
      by (cases "length (stack u) \<le> length mks") (auto simp: min_def)
    moreover have "syncKeep u mks keep = keep"
      by (subst syncKeep_unfold) (simp only: False simp_thms if_False)
    ultimately show ?thesis by simp
  next
    case True
    then have k: "keep < length (levels u)" "keep < length mks" by simp_all
    have lv: "(if keep = length (stack u) - 1 then top u else fst (stack u ! (keep + 1))) = levels u ! keep"
      using True by (simp add: levels_nth)
    from k(1) have "levels u ! keep \<in> set (levels u)" by (rule nth_mem)
    with assms have nd: "dirty (levels u ! keep) \<noteq> NODE_DIRTY" by blast
    have ag: "(matchesMark (levels u ! keep) (mks ! keep) \<and> spanning (mks ! keep) \<noteq> Some False)
                = agrees (levels u ! keep) (mks ! keep)"
      using nd by (simp add: matchesMark_iff agrees_iff)
    have unf: "syncKeep u mks keep =
        (if agrees (levels u ! keep) (mks ! keep) then syncKeep u mks (keep + 1) else keep)"
      by (subst syncKeep_unfold) (simp only: lv ag True simp_thms)
    show ?thesis
    proof (cases "agrees (levels u ! keep) (mks ! keep)")
      case False
      then show ?thesis
        unfolding unf using commonPrefix_drop [OF k] by simp
    next
      case ag': True
      have "keep < min (length (stack u)) (length mks)
         \<and> matchesMark (if keep = length (stack u) - 1 then top u else fst (stack u ! (keep + 1)))
              (mks ! keep)
         \<and> spanning (mks ! keep) \<noteq> Some False"
        using True ag ag' by (simp only: lv simp_thms)
      then have "syncKeep u mks (keep + 1) = keep + 1 + commonPrefix (drop (keep + 1) (levels u)) (drop (keep + 1) mks)"
        using True assms by (intro 1(1)) (simp_all only: Let_def, simp_all)
      with ag' show ?thesis
        unfolding unf using commonPrefix_drop [OF k] by simp
    qed
  qed
qed

lemma hdr_set_children [simp]: "hdr (set_children d cs) = hdr d"
  by (simp add: hdr_def set_children_def)

lemma top_destroyBetween_hdr [simp]: "hdr (top (destroyBetween a b u)) = hdr (top u)"
  by (simp add: destroyBetween_def Let_def)

lemma levels_popMark:
  assumes "stack u \<noteq> []"
  shows "map hdr (levels (popMark u)) = butlast (map hdr (levels u))"
proof -
  obtain st p where st: "stack u = st @ [p]"
    using assms by (metis append_butlast_last_id)
  have s1: "stack (destroyRest u) = st @ [p]"
    by (simp add: destroyRest_def st)
  show ?thesis
  proof (cases "st = []")
    case True
    then show ?thesis by (simp add: levels_def st)
  next
    case False
    have "top (popMark u) = set_children (fst p) ((children (fst p))[snd p - 1 := set_dirty (top (destroyRest u)) NOT_DIRTY])"
      by (simp add: popMark_def Let_def s1)
    then have h: "hdr (top (popMark u)) = hdr (fst p)" by simp
    from False show ?thesis
      by (simp add: levels_def st h map_tl butlast_append)
  qed
qed

lemma popMarks_levels:
  "k \<le> length (stack u) \<Longrightarrow>
     map hdr (levels (popMarks k u)) = take k (map hdr (levels u))
     \<and> length (stack (popMarks k u)) = k"
proof (induction k u rule: popMarks.induct)
  case (1 keep u)
  show ?case
  proof (cases "keep < length (stack u)")
    case False
    with 1(2) show ?thesis by (subst (1 2) popMarks.simps) simp
  next
    case True
    then have ne: "stack u \<noteq> []" by auto
    from True have "keep \<le> length (stack (popMark u))" by simp
    from 1(1)[OF True this] levels_popMark[OF ne] True
    show ?thesis
      by (subst (1 2) popMarks.simps) (simp add: take_butlast)
  qed
qed

lemma find_SomeD: "find P xs = Some x \<Longrightarrow> x \<in> set xs \<and> P x"
  by (induction xs) (auto split: if_splits)

lemma findMark_Some:
  "findMark cs idx m = Some f \<Longrightarrow> idx \<le> f \<and> f < length cs \<and> matchesMark (cs ! f) m"
  by (auto simp: findMark_def dest!: find_SomeD)

lemma pushMark_top:
  "cls (top (pushMark v inline m u)) = MarkViewDesc m
   \<and> dirty (top (pushMark v inline m u)) \<noteq> NODE_DIRTY"
proof (cases "findMark (children (top u)) (index u) m")
  case None
  then show ?thesis
    by (simp add: pushMark_def MarkViewDesc_create_def Let_def dirty_levels)
next
  case (Some f)
  from findMark_Some[OF Some]
  have f: "index u \<le> f" "f < length (children (top u))" "matchesMark (children (top u) ! f) m"
    by simp_all
  have "children (top (if index u < f then destroyBetween (index u) f (u\<lparr>changed := True\<rparr>) else u))
          ! index (if index u < f then destroyBetween (index u) f (u\<lparr>changed := True\<rparr>) else u)
        = children (top u) ! f"
    using f by (auto simp: destroyBetween_def Let_def set_children_def nth_append)
  with Some f(3) show ?thesis
    by (simp add: pushMark_def Let_def matchesMark_iff)
qed

lemma levels_pushMark:
  "map hdr (levels (pushMark v inline m u)) = map hdr (levels u) @ [hdr (top (pushMark v inline m u))]"
proof (cases "findMark (children (top u)) (index u) m")
  case None
  then show ?thesis
    by (cases "stack u = []")
       (simp_all add: pushMark_def MarkViewDesc_create_def Let_def levels_def map_tl)
next
  case (Some f)
  then show ?thesis
    by (cases "stack u = []")
       (simp_all add: pushMark_def Let_def levels_def map_tl)
qed

lemma pushMarks_levels:
  "length (stack u) \<le> length mks \<Longrightarrow>
     length (stack (pushMarks v inline mks u)) = length mks
     \<and> take (length (stack u)) (map hdr (levels (pushMarks v inline mks u))) = map hdr (levels u)
     \<and> (\<forall>j. length (stack u) \<le> j \<and> j < length mks \<longrightarrow>
           cls (levels (pushMarks v inline mks u) ! j) = MarkViewDesc (mks ! j)
           \<and> dirty (levels (pushMarks v inline mks u) ! j) \<noteq> NODE_DIRTY)"
proof (induction v inline mks u rule: pushMarks.induct)
  case (1 v inline mks u)
  show ?case
  proof (cases "length (stack u) < length mks")
    case False
    with 1(2) show ?thesis by (subst (1 2 3 4) pushMarks.simps) simp
  next
    case True
    let ?u1 = "pushMark v inline (mks ! length (stack u)) u"
    let ?r = "pushMarks v inline mks ?u1"
    have le: "length (stack ?u1) \<le> length mks" using True by simp
    note ih = 1(1)[OF True le]
    have eq: "pushMarks v inline mks u = ?r"
      using True by (subst pushMarks.simps) simp
    have l1: "map hdr (levels ?u1) = map hdr (levels u) @ [hdr (top ?u1)]"
      by (rule levels_pushMark)
    have a: "take (length (stack u)) (map hdr (levels ?r)) = map hdr (levels u)"
    proof -
      from ih have "take (Suc (length (stack u))) (map hdr (levels ?r)) = map hdr (levels ?u1)"
        by simp
      then have "take (length (stack u)) (take (Suc (length (stack u))) (map hdr (levels ?r)))
                  = take (length (stack u)) (map hdr (levels ?u1))" by simp
      then show ?thesis by (simp add: l1)
    qed
    have b: "cls (levels ?r ! j) = MarkViewDesc (mks ! j) \<and> dirty (levels ?r ! j) \<noteq> NODE_DIRTY"
      if j: "length (stack u) \<le> j" "j < length mks" for j
    proof (cases "j = length (stack u)")
      case False
      with j ih show ?thesis by simp
    next
      case True
      from ih have t: "take (Suc (length (stack u))) (map hdr (levels ?r)) = map hdr (levels ?u1)"
        by simp
      have "j < length (levels ?r)" using ih j by simp
      then have "hdr (levels ?r ! j) = take (Suc (length (stack u))) (map hdr (levels ?r)) ! j"
        using True by simp
      also have "\<dots> = hdr (top ?u1)"
        using True by (simp add: t l1 nth_append)
      finally show ?thesis
        using pushMark_top[of v inline "mks ! length (stack u)" u] True
        by (simp add: hdr_def)
    qed
    from ih a b show ?thesis unfolding eq by simp
  qed
qed

lemma destroy_all_append: "destroy_all (a @ b) w = destroy_all b (destroy_all a w)"
  by (induction a arbitrary: w) auto

lemma wld_popMark:
  "wld (popMark u) = destroy_all (drop (index u) (children (top u))) (wld u)"
  by (simp add: popMark_def destroyRest_def destroyBetween_def Let_def)

lemma stack_popMarks: "k \<le> length (stack u) \<Longrightarrow> stack (popMarks k u) = take k (stack u)"
proof (induction k u rule: popMarks.induct)
  case (1 keep u)
  show ?case
  proof (cases "keep < length (stack u)")
    case False
    with 1(2) show ?thesis by (subst popMarks.simps) simp
  next
    case True
    then have "keep \<le> length (stack (popMark u))" by simp
    from 1(1)[OF True this] True show ?thesis
      by (subst popMarks.simps) (simp add: take_butlast)
  qed
qed

lemma unvisitedAbove_popMark:
  assumes "keep < length (stack u)" and "\<forall>e \<in> set (stack u). 0 < snd e"
  shows "unvisitedAbove keep u =
           drop (index u) (children (top u)) @ unvisitedAbove keep (popMark u)"
proof -
  obtain st p idx where st: "stack u = st @ [(p, idx)]"
    using assms(1) by (metis append_butlast_last_id length_greater_0_conv less_nat_zero_code
        list.size(3) not_less_zero surj_pair gr_implies_not0)
  from assms(2) st have idx: "0 < idx" by simp
  have s1: "stack (destroyRest u) = st @ [(p, idx)]"
    by (simp add: destroyRest_def st)
  have t: "top (popMark u) = set_children p ((children p)[idx - 1 := set_dirty (top (destroyRest u)) NOT_DIRTY])"
    "index (popMark u) = idx"
    by (simp_all add: popMark_def Let_def s1)
  have d: "drop (index (popMark u)) (children (top (popMark u))) = drop idx (children p)"
    using idx by (simp add: t set_children_def drop_update_cancel)
  from assms(1) st have k: "keep \<le> length st" by simp
  show ?thesis
  proof (cases "keep < length st")
    case True
    then show ?thesis
      using d by (simp add: unvisitedAbove_def st)
  next
    case False
    with k have "keep = length st" by simp
    then show ?thesis
      by (simp add: unvisitedAbove_def st)
  qed
qed

lemma wld_popMarks:
  "\<forall>e \<in> set (stack u). 0 < snd e \<Longrightarrow>
     wld (popMarks keep u) = destroy_all (unvisitedAbove keep u) (wld u)"
proof (induction keep u rule: popMarks.induct)
  case (1 keep u)
  show ?case
  proof (cases "keep < length (stack u)")
    case False
    then show ?thesis
      by (subst popMarks.simps) (simp add: unvisitedAbove_def)
  next
    case True
    have ok: "\<forall>e \<in> set (stack (popMark u)). 0 < snd e"
      using 1(2) by (auto dest: in_set_butlastD)
    from 1(1)[OF True ok] unvisitedAbove_popMark[OF True 1(2)] True
    show ?thesis
      by (subst popMarks.simps) (simp add: wld_popMark destroy_all_append)
  qed
qed

lemma commonPrefix_nth:
  "j < commonPrefix ds ms \<Longrightarrow> agrees (ds ! j) (ms ! j)"
proof (induction ds ms arbitrary: j rule: commonPrefix.induct)
  case (1 d ds m ms)
  then show ?case by (cases j) (auto split: if_splits)
qed auto

lemma stack_pushMark_ok:
  "\<forall>e \<in> set (stack u). 0 < snd e \<Longrightarrow> \<forall>e \<in> set (stack (pushMark v inline m u)). 0 < snd e"
  by (auto simp: pushMark_def Let_def MarkViewDesc_create_def split: option.splits)

lemma stack_pushMarks_ok:
  "\<forall>e \<in> set (stack u). 0 < snd e \<Longrightarrow> \<forall>e \<in> set (stack (pushMarks v inline mks u)). 0 < snd e"
proof (induction v inline mks u rule: pushMarks.induct)
  case (1 v inline mks u)
  show ?case
  proof (cases "length (stack u) < length mks")
    case False
    with 1(2) show ?thesis by (subst pushMarks.simps) simp
  next
    case True
    from 1(1)[OF True stack_pushMark_ok[OF 1(2)]] True show ?thesis
      by (subst pushMarks.simps) simp
  qed
qed

lemma destroy_events:
  "events (destroy d w) = events w @ map Destroy (oids d)
   \<and> fresh (destroy d w) = fresh w \<and> hst (destroy d w) = hst w"
  "events (destroy_all ds w) = events w @ map Destroy (concat (map oids ds))
   \<and> fresh (destroy_all ds w) = fresh w \<and> hst (destroy_all ds w) = hst w"
  by (induction d w and ds w rule: destroy_destroy_all.induct) simp_all

lemma destroy_linked:
  "linked (destroy d w) x = unlinked [d] w x"
  "linked (destroy_all ds w) x = unlinked ds w x"
proof (induction d w and ds w rule: destroy_destroy_all.induct)
  case (1 i c dty dm cd cs w)
  then show ?case by (auto simp: unlinked_def)
next
  case (2 w)
  then show ?case by (simp add: unlinked_def)
next
  case (3 c cs w)
  then show ?case by (auto simp: unlinked_def)
qed

lemma pushMark_events:
  "\<exists>more. events (wld (pushMark v inline m u)) = events (wld u) @ more"
proof (cases "findMark (children (top u)) (index u) m")
  case None
  then show ?thesis
    by (simp add: pushMark_def MarkViewDesc_create_def Let_def)
next
  case (Some f)
  then show ?thesis
    by (simp add: pushMark_def Let_def destroyBetween_def destroy_events)
qed

lemma pushMarks_events:
  "\<exists>more. events (wld (pushMarks v inline mks u)) = events (wld u) @ more"
proof (induction v inline mks u rule: pushMarks.induct)
  case (1 v inline mks u)
  show ?case
  proof (cases "length (stack u) < length mks")
    case False
    then show ?thesis by (subst pushMarks.simps) simp
  next
    case True
    from 1[OF True] obtain more where
      m: "events (wld (pushMarks v inline mks (pushMark v inline (mks ! length (stack u)) u)))
            = events (wld (pushMark v inline (mks ! length (stack u)) u)) @ more"
      by blast
    from pushMark_events[of v inline "mks ! length (stack u)" u] obtain more' where
      m': "events (wld (pushMark v inline (mks ! length (stack u)) u)) = events (wld u) @ more'"
      by blast
    have "events (wld (pushMarks v inline mks u)) = events (wld u) @ (more' @ more)"
      using True m m' by (subst pushMarks.simps) simp
    then show ?thesis by blast
  qed
qed

lemma pushMark_origin:
  "(case findMark (children (top u)) (index u) m of
      None \<Rightarrow> oid (top (pushMark v inline m u)) = fresh (wld u)
              \<and> children (top (pushMark v inline m u)) = []
              \<and> fresh (wld (pushMark v inline m u)) = fresh (wld u) + 3
    | Some f \<Rightarrow> top (pushMark v inline m u) = children (top u) ! f
              \<and> index u \<le> f \<and> f < index u + 3 \<and> f < length (children (top u)))"
proof (cases "findMark (children (top u)) (index u) m")
  case None
  then show ?thesis
    by (simp add: pushMark_def MarkViewDesc_create_def Let_def)
next
  case (Some f)
  from findMark_Some[OF Some]
  have f: "index u \<le> f" "f < length (children (top u))"
    by simp_all
  have f3: "f < index u + 3"
    using Some by (auto simp: findMark_def dest!: find_SomeD)
  have "children (top (if index u < f then destroyBetween (index u) f (u\<lparr>changed := True\<rparr>) else u))
          ! index (if index u < f then destroyBetween (index u) f (u\<lparr>changed := True\<rparr>) else u)
        = children (top u) ! f"
    using f by (auto simp: destroyBetween_def Let_def set_children_def nth_append)
  with Some f f3 show ?thesis
    by (simp add: pushMark_def Let_def)
qed

lemma two_levels:
  assumes "length (stack u) = 2" "agrees (levels u ! 0) A" "\<not> agrees (levels u ! 1) C"
  shows "commonPrefix (levels u) [A, C] = 1"
proof -
  from assms(1) have "length (levels u) = 2" by simp
  then obtain a b where l: "levels u = [a, b]"
    by (cases "levels u"; cases "tl (levels u)") auto
  with assms(2,3) show ?thesis by simp
qed

lemma two_levels_sync:
  assumes "length (stack u) = 2"
  shows "pushMarks v inline [A, C] (popMarks 1 u) = pushMark v inline C (popMark u)"
proof -
  have p: "popMarks 1 u = popMark u"
    using assms by (subst popMarks.simps, subst popMarks.simps) simp
  have s: "length (stack (popMark u)) = 1" using assms by simp
  show ?thesis
    unfolding p using s
    by (subst pushMarks.simps, subst pushMarks.simps) simp
qed

lemma index_popMark: "stack u \<noteq> [] \<Longrightarrow> index (popMark u) = snd (last (stack u))"
  by (simp add: popMark_def Let_def destroyRest_def)

text \<open>
  Claim C6. Inside a reconciliation pass the levels of the updater are mark descriptions
  that are not at \<open>NODE_DIRTY\<close> and every saved index is positive (both hold at the start,
  where there is no level, and \<^verbatim>\<open>syncToMarks\<close> keeps both). Then \<^verbatim>\<open>syncToMarks\<close> keeps
  exactly the longest common prefix of the levels and the target marks, a level agreeing
  with a mark when its mark is that mark and the mark's type is not declared non-spanning:
  the kept levels are the same descriptions as before, the levels after the call are one
  mark description for each target mark, in order, and going back to the kept levels
  destroys the children not yet visited of the levels that are left: each of them and
  everything below it is destroyed, in order, before anything else is done, and the links
  that their host nodes hold to them are cleared.

  In particular, when the updater stands inside a description of the mark A and, in it, a
  description of the mark B, and the next child has the marks A and C, where the type of
  A is not declared non-spanning and the B description does not agree with C: exactly the
  A level is kept, so the A description is the same object for both children; the B
  description is left, the rest of its children being destroyed; and the C description
  that is entered is the first description matching C among the next three children of
  the A description from its index on, which is where the B description ends, or, when
  there is none, a new description, whose identity is the next unused one and which has no
  children yet.
\<close>

theorem syncToMarks_keeps_common_prefix:
  assumes clean: "\<forall>d \<in> set (levels u). dirty d \<noteq> NODE_DIRTY"
    and ok: "\<forall>e \<in> set (stack u). 0 < snd e"
  shows "syncKeep u mks 0 = commonPrefix (levels u) mks
     \<and> length (stack (syncToMarks v inline mks u)) = length mks
     \<and> map cls (levels (syncToMarks v inline mks u)) = map MarkViewDesc mks
     \<and> take (commonPrefix (levels u) mks) (map oid (levels (syncToMarks v inline mks u)))
         = take (commonPrefix (levels u) mks) (map oid (levels u))
     \<and> wld (popMarks (commonPrefix (levels u) mks) u)
         = destroy_all (unvisitedAbove (commonPrefix (levels u) mks) u) (wld u)
     \<and> (\<exists>more. events (wld (syncToMarks v inline mks u))
           = events (wld u)
             @ map Destroy (concat (map oids (unvisitedAbove (commonPrefix (levels u) mks) u)))
             @ more)
     \<and> linked (wld (popMarks (commonPrefix (levels u) mks) u))
         = unlinked (unvisitedAbove (commonPrefix (levels u) mks) u) (wld u)
     \<and> (\<forall>d \<in> set (levels (syncToMarks v inline mks u)). dirty d \<noteq> NODE_DIRTY)
     \<and> (\<forall>e \<in> set (stack (syncToMarks v inline mks u)). 0 < snd e)
     \<and> (length (stack u) = 2 \<and> mks = [A, C]
          \<and> agrees (levels u ! 0) A \<and> \<not> agrees (levels u ! 1) C \<longrightarrow>
        commonPrefix (levels u) mks = 1
        \<and> syncToMarks v inline mks u = pushMark v inline C (popMark u)
        \<and> oid (levels (syncToMarks v inline mks u) ! 0) = oid (levels u ! 0)
        \<and> cls (levels (syncToMarks v inline mks u) ! 1) = MarkViewDesc C
        \<and> events (wld (popMark u))
            = events (wld u) @ map Destroy (concat (map oids (drop (index u) (children (top u)))))
        \<and> (case findMark (children (top (popMark u))) (snd (last (stack u))) C of
              None \<Rightarrow> oid (levels (syncToMarks v inline mks u) ! 1) = fresh (wld u)
                      \<and> children (levels (syncToMarks v inline mks u) ! 1) = []
            | Some f \<Rightarrow> levels (syncToMarks v inline mks u) ! 1 = children (top (popMark u)) ! f
                      \<and> snd (last (stack u)) \<le> f))"
proof -
  let ?k = "commonPrefix (levels u) mks"
  let ?p = "popMarks ?k u"
  let ?r = "syncToMarks v inline mks u"
  have k: "syncKeep u mks 0 = ?k"
    using syncKeep_prefix[OF clean, of 0 mks] by simp
  have kle: "?k \<le> length (stack u)" "?k \<le> length mks"
    using commonPrefix_le[of "levels u" mks] by simp_all
  have r: "?r = pushMarks v inline mks ?p"
    by (simp add: syncToMarks_def k)
  from popMarks_levels[OF kle(1)]
  have p: "map hdr (levels ?p) = take ?k (map hdr (levels u))" "length (stack ?p) = ?k"
    by simp_all
  from pushMarks_levels[of ?p mks v inline] p(2) kle(2)
  have q: "length (stack ?r) = length mks"
    "take ?k (map hdr (levels ?r)) = map hdr (levels ?p)"
    "\<And>j. ?k \<le> j \<Longrightarrow> j < length mks \<Longrightarrow>
        cls (levels ?r ! j) = MarkViewDesc (mks ! j) \<and> dirty (levels ?r ! j) \<noteq> NODE_DIRTY"
    unfolding r by simp_all
  have kept: "hdr (levels ?r ! j) = hdr (levels u ! j)" if "j < ?k" for j
  proof -
    have "hdr (levels ?r ! j) = take ?k (map hdr (levels ?r)) ! j"
      using that q(1) kle(2) by simp
    also have "\<dots> = take ?k (map hdr (levels u)) ! j"
      by (simp add: q(2) p(1))
    also have "\<dots> = hdr (levels u ! j)"
      using that kle(1) by simp
    finally show ?thesis .
  qed
  have cls_all: "cls (levels ?r ! j) = MarkViewDesc (mks ! j) \<and> dirty (levels ?r ! j) \<noteq> NODE_DIRTY"
    if j: "j < length mks" for j
  proof (cases "j < ?k")
    case True
    from commonPrefix_nth[OF True] have "cls (levels u ! j) = MarkViewDesc (mks ! j)"
      by (simp add: agrees_iff)
    moreover have "levels u ! j \<in> set (levels u)"
      using True kle(1) by (intro nth_mem) simp
    with clean have "dirty (levels u ! j) \<noteq> NODE_DIRTY" by blast
    ultimately show ?thesis using kept[OF True] by (simp add: hdr_def)
  next
    case False
    with q(3)[of j] j show ?thesis by simp
  qed
  have c: "map cls (levels ?r) = map MarkViewDesc mks"
    using q(1) cls_all by (auto simp: list_eq_iff_nth_eq)
  have o: "take ?k (map oid (levels ?r)) = take ?k (map oid (levels u))"
  proof -
    have "map fst (take ?k (map hdr (levels ?r))) = map fst (take ?k (map hdr (levels u)))"
      by (simp add: q(2) p(1))
    then show ?thesis
      by (simp add: take_map hdr_def comp_def)
  qed
  have d: "\<forall>d \<in> set (levels ?r). dirty d \<noteq> NODE_DIRTY"
  proof
    fix d assume "d \<in> set (levels ?r)"
    then obtain j where "j < length (levels ?r)" "d = levels ?r ! j"
      by (auto simp: in_set_conv_nth)
    with cls_all[of j] q(1) show "dirty d \<noteq> NODE_DIRTY" by simp
  qed
  have s: "\<forall>e \<in> set (stack ?r). 0 < snd e"
    unfolding r
    by (rule stack_pushMarks_ok) (use ok stack_popMarks[OF kle(1)] in \<open>auto dest: in_set_takeD\<close>)
  have w: "wld ?p = destroy_all (unvisitedAbove ?k u) (wld u)"
    by (rule wld_popMarks[OF ok])
  have e: "\<exists>more. events (wld ?r)
           = events (wld u) @ map Destroy (concat (map oids (unvisitedAbove ?k u))) @ more"
  proof -
    from pushMarks_events[of v inline mks ?p] obtain more where
      "events (wld ?r) = events (wld ?p) @ more"
      unfolding r by blast
    then have "events (wld ?r)
           = events (wld u) @ map Destroy (concat (map oids (unvisitedAbove ?k u))) @ more"
      by (simp add: w destroy_events)
    then show ?thesis by blast
  qed
  have lk: "linked (wld ?p) = unlinked (unvisitedAbove ?k u) (wld u)"
    by (rule ext) (simp add: w destroy_linked)
  have two: "?k = 1
        \<and> ?r = pushMark v inline C (popMark u)
        \<and> oid (levels ?r ! 0) = oid (levels u ! 0)
        \<and> cls (levels ?r ! 1) = MarkViewDesc C
        \<and> events (wld (popMark u))
            = events (wld u) @ map Destroy (concat (map oids (drop (index u) (children (top u)))))
        \<and> (case findMark (children (top (popMark u))) (snd (last (stack u))) C of
              None \<Rightarrow> oid (levels ?r ! 1) = fresh (wld u) \<and> children (levels ?r ! 1) = []
            | Some f \<Rightarrow> levels ?r ! 1 = children (top (popMark u)) ! f
                      \<and> snd (last (stack u)) \<le> f)"
    if h: "length (stack u) = 2" "mks = [A, C]" "agrees (levels u ! 0) A" "\<not> agrees (levels u ! 1) C"
  proof -
    have k1: "?k = 1"
      unfolding h(2) by (rule two_levels[OF h(1,3,4)])
    have r1: "?r = pushMark v inline C (popMark u)"
    proof -
      have "?r = pushMarks v inline mks (popMarks 1 u)"
        by (simp only: r k1)
      also have "\<dots> = pushMark v inline C (popMark u)"
        unfolding h(2) by (rule two_levels_sync[OF h(1)])
      finally show ?thesis .
    qed
    have o0: "oid (levels ?r ! 0) = oid (levels u ! 0)"
      using kept[of 0] k1 by (simp add: hdr_def)
    have c1: "cls (levels ?r ! 1) = MarkViewDesc C"
      using cls_all[of 1] h(2) by simp
    have ev: "events (wld (popMark u))
            = events (wld u) @ map Destroy (concat (map oids (drop (index u) (children (top u)))))"
      by (simp add: wld_popMark destroy_events)
    have ne: "stack u \<noteq> []" using h(1) by auto
    have ip: "index (popMark u) = snd (last (stack u))"
      by (rule index_popMark[OF ne])
    have lr: "levels ?r ! 1 = top ?r"
      using q(1) h(2) by (simp add: levels_nth)
    have lr': "levels (pushMark v inline C (popMark u)) ! Suc 0
                 = top (pushMark v inline C (popMark u))"
      using lr unfolding r1 by simp
    have fr: "fresh (wld (popMark u)) = fresh (wld u)"
      by (simp add: wld_popMark destroy_events)
    have org: "(case findMark (children (top (popMark u))) (snd (last (stack u))) C of
              None \<Rightarrow> oid (levels ?r ! 1) = fresh (wld u) \<and> children (levels ?r ! 1) = []
            | Some f \<Rightarrow> levels ?r ! 1 = children (top (popMark u)) ! f
                      \<and> snd (last (stack u)) \<le> f)"
      using pushMark_origin[where u="popMark u" and m=C and v=v and inline=inline]
      unfolding r1 ip fr by (simp add: lr' split: option.splits)
    from k1 r1 o0 c1 ev org show ?thesis by (intro conjI)
  qed
  from two have two': "length (stack u) = 2 \<and> mks = [A, C]
          \<and> agrees (levels u ! 0) A \<and> \<not> agrees (levels u ! 1) C \<longrightarrow>
        ?k = 1
        \<and> ?r = pushMark v inline C (popMark u)
        \<and> oid (levels ?r ! 0) = oid (levels u ! 0)
        \<and> cls (levels ?r ! 1) = MarkViewDesc C
        \<and> events (wld (popMark u))
            = events (wld u) @ map Destroy (concat (map oids (drop (index u) (children (top u)))))
        \<and> (case findMark (children (top (popMark u))) (snd (last (stack u))) C of
              None \<Rightarrow> oid (levels ?r ! 1) = fresh (wld u) \<and> children (levels ?r ! 1) = []
            | Some f \<Rightarrow> levels ?r ! 1 = children (top (popMark u)) ! f
                      \<and> snd (last (stack u)) \<le> f)"
    by blast
  from k q(1) c o w e lk d s two' show ?thesis by (intro conjI)
qed

theorem syncToMarks_keeps_common_prefix_witness:
  "commonPrefix (levels ex_u_rest) [ex_strong, ex_code] = 1
   \<and> map oid (levels ex_u_rest) = [100, 103]
   \<and> map oid (levels (syncToMarks ex_view True [ex_strong, ex_code] ex_u_rest)) = [100, 108]
   \<and> map cls (levels (syncToMarks ex_view True [ex_strong, ex_code] ex_u_rest))
       = [MarkViewDesc ex_strong, MarkViewDesc ex_code]
   \<and> syncToMarks ex_view True [ex_strong, ex_code] ex_u_rest
       = pushMark ex_view True ex_code (popMark ex_u_rest)
   \<and> oid (levels (syncToMarks ex_view True [ex_strong, ex_code] ex_u_rest) ! 0)
       = oid (levels ex_u_rest ! 0)
   \<and> map oid (drop (index ex_u_rest) (children (top ex_u_rest))) = [13]
   \<and> events (wld ex_u_rest) = []
   \<and> events (wld (popMark ex_u_rest)) = [Destroy 13]
   \<and> (\<exists>more. events (wld (syncToMarks ex_view True [ex_strong, ex_code] ex_u_rest))
         = Destroy 13 # more)
   \<and> linked (wld ex_u_rest) 23 = Some 13
   \<and> linked (wld (popMarks 1 ex_u_rest)) 23 = None
   \<and> fresh (wld ex_u_rest) = 108
   \<and> oid (levels (syncToMarks ex_view True [ex_strong, ex_code] ex_u_rest) ! 1) = 108
   \<and> children (levels (syncToMarks ex_view True [ex_strong, ex_code] ex_u_rest) ! 1) = []
   \<and> map oid (levels ex_u2) = [100, 103]
   \<and> map oid (levels (syncToMarks ex_view True [ex_strong, ex_code] ex_u2)) = [100, 108]
   \<and> syncToMarks ex_view True [ex_strong, ex_code] ex_u2
       = pushMark ex_view True ex_code (popMark ex_u2)
   \<and> oid (levels (syncToMarks ex_view True [ex_strong, ex_code] ex_u2) ! 0)
       = oid (levels ex_u2 ! 0)
   \<and> events (wld (popMark ex_u2)) = []
   \<and> map outlineOf (children (top ex_u5))
       = [Outline 100 [Outline 103 [Outline 106 []], Outline 108 [Outline 111 []]]]"
proof -
  let ?r = "syncToMarks ex_view True [ex_strong, ex_code] ex_u_rest"
  have clean: "\<forall>d \<in> set (levels ex_u_rest). dirty d \<noteq> NODE_DIRTY"
    by code_simp
  have ok: "\<forall>e \<in> set (stack ex_u_rest). 0 < snd e"
    by code_simp
  have h: "length (stack ex_u_rest) = 2 \<and> [ex_strong, ex_code] = [ex_strong, ex_code]
          \<and> agrees (levels ex_u_rest ! 0) ex_strong \<and> \<not> agrees (levels ex_u_rest ! 1) ex_code"
    by code_simp
  have k: "commonPrefix (levels ex_u_rest) [ex_strong, ex_code] = 1"
    by code_simp
  have o: "map oid (levels ex_u_rest) = [100, 103]"
    "map oid (levels ?r) = [100, 108]"
    by code_simp+
  have un: "concat (map oids (unvisitedAbove (Suc 0) ex_u_rest)) = [13]"
    by code_simp
  have dr: "concat (map oids (drop (index ex_u_rest) (children (top ex_u_rest)))) = [13]"
    "map oid (drop (index ex_u_rest) (children (top ex_u_rest))) = [13]"
    by code_simp+
  have ev: "events (wld ex_u_rest) = []"
    by code_simp
  have fm: "findMark (children (top (popMark ex_u_rest))) (snd (last (stack ex_u_rest))) ex_code = None"
    by code_simp
  have fr: "fresh (wld ex_u_rest) = 108"
    by code_simp
  have t: "map outlineOf (children (top ex_u5))
       = [Outline 100 [Outline 103 [Outline 106 []], Outline 108 [Outline 111 []]]]"
    by code_simp
  note inst = syncToMarks_keeps_common_prefix [OF clean ok,
      of "[ex_strong, ex_code]" ex_view True ex_strong ex_code]
  have a: "map cls (levels ?r) = [MarkViewDesc ex_strong, MarkViewDesc ex_code]"
    using inst by simp
  have l0: "linked (wld ex_u_rest) 23 = Some 13"
    by code_simp
  have ul: "unlinked (unvisitedAbove (Suc 0) ex_u_rest) (wld ex_u_rest) 23 = None"
    by code_simp
  from inst have "linked (wld (popMarks (commonPrefix (levels ex_u_rest) [ex_strong, ex_code]) ex_u_rest))
         = unlinked (unvisitedAbove (commonPrefix (levels ex_u_rest) [ex_strong, ex_code]) ex_u_rest)
             (wld ex_u_rest)"
    by blast
  then have l1: "linked (wld (popMarks 1 ex_u_rest)) 23 = None"
    by (simp add: k ul)
  have b: "\<exists>more. events (wld ?r) = Destroy 13 # more"
    using inst by (simp add: k un ev)
  from inst h have two: "?r = pushMark ex_view True ex_code (popMark ex_u_rest)"
    "oid (levels ?r ! 0) = oid (levels ex_u_rest ! 0)"
    "events (wld (popMark ex_u_rest))
       = events (wld ex_u_rest)
         @ map Destroy (concat (map oids (drop (index ex_u_rest) (children (top ex_u_rest)))))"
    "(case findMark (children (top (popMark ex_u_rest))) (snd (last (stack ex_u_rest))) ex_code of
        None \<Rightarrow> oid (levels ?r ! 1) = fresh (wld ex_u_rest) \<and> children (levels ?r ! 1) = []
      | Some f \<Rightarrow> levels ?r ! 1 = children (top (popMark ex_u_rest)) ! f
                \<and> snd (last (stack ex_u_rest)) \<le> f)"
    by blast+
  have c: "events (wld (popMark ex_u_rest)) = [Destroy 13]"
    using two(3) by (simp add: ev dr)
  have d: "oid (levels ?r ! 1) = 108" "children (levels ?r ! 1) = []"
    using two(4) by (simp_all add: fm fr)
  have clean2: "\<forall>d \<in> set (levels ex_u2). dirty d \<noteq> NODE_DIRTY"
    by code_simp
  have ok2: "\<forall>e \<in> set (stack ex_u2). 0 < snd e"
    by code_simp
  have h2: "length (stack ex_u2) = 2 \<and> [ex_strong, ex_code] = [ex_strong, ex_code]
          \<and> agrees (levels ex_u2 ! 0) ex_strong \<and> \<not> agrees (levels ex_u2 ! 1) ex_code"
    by code_simp
  have o2: "map oid (levels ex_u2) = [100, 103]"
    "map oid (levels (syncToMarks ex_view True [ex_strong, ex_code] ex_u2)) = [100, 108]"
    by code_simp+
  have e2: "events (wld ex_u2) = []"
    "concat (map oids (drop (index ex_u2) (children (top ex_u2)))) = []"
    by code_simp+
  from syncToMarks_keeps_common_prefix [OF clean2 ok2,
      of "[ex_strong, ex_code]" ex_view True ex_strong ex_code] h2
  have first: "syncToMarks ex_view True [ex_strong, ex_code] ex_u2
       = pushMark ex_view True ex_code (popMark ex_u2)"
    "oid (levels (syncToMarks ex_view True [ex_strong, ex_code] ex_u2) ! 0)
       = oid (levels ex_u2 ! 0)"
    "events (wld (popMark ex_u2))
       = events (wld ex_u2)
         @ map Destroy (concat (map oids (drop (index ex_u2) (children (top ex_u2)))))"
    by blast+
  have e3: "events (wld (popMark ex_u2)) = []"
    using first(3) by (simp add: e2)
  from k o a two(1,2) dr(2) ev c b l0 l1 fr d o2 first(1,2) e3 t show ?thesis
    by (intro conjI)
qed

text \<open>
  The claim as stated fails for a mark A whose type is declared \<^verbatim>\<open>spanning: false\<close>. With
  the first child under link and em and the second under link and code, where link is such
  a mark, the link description of the first child matches the mark link and is clean, and
  still no level is kept: the second child gets a link description of its own (108 beside
  100), so the description of A is not reused across the two children.
\<close>

theorem nonspanning_mark_counterexample:
  "spanning ex_link = Some False
   \<and> map (mark \<circ> cls) (levels ex_u2_link) = [ex_link, ex_em]
   \<and> map dirty (levels ex_u2_link) = [NOT_DIRTY, NOT_DIRTY]
   \<and> map oid (levels ex_u2_link) = [100, 103]
   \<and> syncKeep ex_u2_link [ex_link, ex_code] 0 = 0
   \<and> map (mark \<circ> cls) (levels (syncToMarks ex_view True [ex_link, ex_code] ex_u2_link))
       = [ex_link, ex_code]
   \<and> map oid (levels (syncToMarks ex_view True [ex_link, ex_code] ex_u2_link)) = [108, 111]
   \<and> map outlineOf (children (top ex_u5_link))
       = [Outline 100 [Outline 103 [Outline 106 []]], Outline 108 [Outline 111 [Outline 114 []]]]"
  by code_simp

subsection \<open>Updating next to a composition\<close>

lemma sameOuterDeco_update:
  "cls d = NodeViewDesc k dn dod didc nd \<Longrightarrow> sameOuterDeco od dod \<Longrightarrow>
     updateOuterDeco v od d w = (d, w)"
  by (simp add: updateOuterDeco_def)

lemma ex_u_lock_facts:
  "children (top ex_u_lock) = [ex_text_desc]" "index ex_u_lock = 0" "lock ex_u_lock = Some 22"
  "hst (wld ex_u_lock) = ex_host" "wld ex_u_lock = ex_world" "preMatched ex_u_lock = []"
  "contentDOM (top ex_u_lock) = Some 20" "hst ex_world = ex_host"
  by (simp_all add: ex_u_lock_def ex_world_def)

lemma ex_text_desc_facts:
  "cls ex_text_desc = NodeViewDesc TextNode ex_text [] 0 22" "dom ex_text_desc = 22"
  "dirty ex_text_desc = NOT_DIRTY" "oid ex_text_desc = 12" "contentDOM ex_text_desc = None"
  "children ex_text_desc = []" "isNodeDesc ex_text_desc"
  by (simp_all add: ex_text_desc_def isNodeDesc_def)

lemma ex_lock_candidate:
  "find (\<lambda>j. isNodeDesc (children (top ex_u_lock) ! j))
     [index ex_u_lock ..< length (children (top ex_u_lock))] = Some 0"
  by (simp add: ex_u_lock_facts ex_text_desc_facts)

lemma ex_lock_holds: "holdsLock (hst (wld ex_u_lock)) 22 (children (top ex_u_lock) ! 0)"
  by (simp add: holdsLock_def ex_u_lock_facts ex_text_desc_facts)

lemma ex_lock_settled:
  "settledText ex_host ex_text_desc ex_text_same []"
  "\<not> settledText ex_host ex_text_desc ex_text_abd []"
  by (simp_all add: settledText_def ex_text_desc_facts ex_host_def ex_text_same_def
        ex_text_abd_def dirty_levels ex_text_def)

lemma ex_lock_markup:
  "sameMarkup ex_text_same ex_text" "sameMarkup ex_text_abd ex_text"
  by (simp_all add: sameMarkup_def ex_text_same_def ex_text_abd_def ex_text_def)

lemma ex_unlocked_run:
  "map_option fst (updateNextNode ex_upd ex_text_same [] 0 0 (ex_u_lock\<lparr>lock := None\<rparr>))
     = Some True"
  by (simp add: updateNextNode_def Let_def ex_lock_candidate ex_u_lock_facts
        ex_text_desc_facts indexOfDesc_def locked_def ex_upd_def TextViewDesc_update_def
        ex_lock_markup dirty_levels updateOuterDeco_def)

text \<open>
  Claim C4. With a composition lock, when the candidate of \<^verbatim>\<open>updateNextNode\<close> (the first
  node description from the index on) has the locked node as its outer host node, or has
  an element as outer host node that contains the locked node's parent, the update in
  place is refused, without the description's \<^verbatim>\<open>update\<close> being called and with the updater
  unchanged, unless the incoming node is a text node, the candidate is a text description
  not at \<open>NODE_DIRTY\<close>, its host text node already holds the incoming text and the outer
  decorations are the same. In exactly that case \<^verbatim>\<open>updateNextNode\<close> goes on as it does
  without a lock; \<^verbatim>\<open>TextViewDesc.update\<close> then succeeds, when the markup is the same and
  the description is clean or still in its parent, and leaves the host tree as it is.
\<close>

theorem updateNextNode_lock:
  assumes cand: "find (\<lambda>j. isNodeDesc (children (top u) ! j))
                   [index u ..< length (children (top u))] = Some j"
    and lk: "lock u = Some l"
    and holds: "holdsLock (hst (wld u)) l (children (top u) ! j)"
  shows "updateNextNode upd n od idc i u
           = (if settledText (hst (wld u)) (children (top u) ! j) n od
              then map_option (\<lambda>(ok, u'). (ok, u'\<lparr>lock := Some l\<rparr>))
                     (updateNextNode upd n od idc i (u\<lparr>lock := None\<rparr>))
              else Some (False, u))
         \<and> (settledText (hst (wld u)) (children (top u) ! j) n od
              \<and> cls (children (top u) ! j) = NodeViewDesc k dn dod didc nd
              \<and> sameMarkup n dn
              \<and> (dirty (children (top u) ! j) = NOT_DIRTY \<or> inParent (hst (wld u)) pcd nd)
            \<longrightarrow> TextViewDesc_update v (wld u) pcd (children (top u) ! j) n od
                  = (True,
                     Desc (oid (children (top u) ! j)) (NodeViewDesc k n dod didc nd) NOT_DIRTY
                       (dom (children (top u) ! j)) (contentDOM (children (top u) ! j))
                       (children (children (top u) ! j)),
                     wld u))"
proof (intro conjI impI)
  have u: "u\<lparr>lock := Some l\<rparr> = u" using lk by simp
  show "updateNextNode upd n od idc i u
           = (if settledText (hst (wld u)) (children (top u) ! j) n od
              then map_option (\<lambda>(ok, u'). (ok, u'\<lparr>lock := Some l\<rparr>))
                     (updateNextNode upd n od idc i (u\<lparr>lock := None\<rparr>))
              else Some (False, u))"
    using cand lk holds
    by (cases u)
       (auto simp: updateNextNode_def Let_def locked_def destroyBetween_def startOfChild_def
             split: option.splits prod.splits)
next
  assume a: "settledText (hst (wld u)) (children (top u) ! j) n od
              \<and> cls (children (top u) ! j) = NodeViewDesc k dn dod didc nd
              \<and> sameMarkup n dn
              \<and> (dirty (children (top u) ! j) = NOT_DIRTY \<or> inParent (hst (wld u)) pcd nd)"
  let ?d = "children (top u) ! j"
  from a have c: "cls ?d = NodeViewDesc k dn dod didc nd" by simp
  from a have s: "sameOuterDeco od dod" "nodeValue (hst (wld u)) nd = ntext n" "dirty ?d \<noteq> NODE_DIRTY"
    by (simp_all add: settledText_def c)
  from c s have uo: "updateOuterDeco v od ?d (wld u) = (?d, wld u)"
    by (simp add: sameOuterDeco_update)
  from a s show "TextViewDesc_update v (wld u) pcd ?d n od
                  = (True, Desc (oid ?d) (NodeViewDesc k n dod didc nd) NOT_DIRTY
                       (dom ?d) (contentDOM ?d) (children ?d), wld u)"
    by (auto simp: TextViewDesc_update_def uo c Let_def)
qed

theorem updateNextNode_lock_witness:
  "updateNextNode ex_upd ex_text_same [] 0 0 ex_u_lock
     = map_option (\<lambda>(ok, u'). (ok, u'\<lparr>lock := Some 22\<rparr>))
         (updateNextNode ex_upd ex_text_same [] 0 0 (ex_u_lock\<lparr>lock := None\<rparr>))
   \<and> map_option fst (updateNextNode ex_upd ex_text_same [] 0 0 ex_u_lock) = Some True
   \<and> updateNextNode ex_upd ex_text_abd [] 0 0 ex_u_lock = Some (False, ex_u_lock)
   \<and> TextViewDesc_update ex_view ex_world (Some 20) ex_text_desc ex_text_same []
       = (True, Desc 12 (NodeViewDesc TextNode ex_text_same [] 0 22) NOT_DIRTY 22 None [],
          ex_world)"
  using ex_unlocked_run updateNextNode_lock [OF ex_lock_candidate _ ex_lock_holds,
          of ex_upd ex_text_same "[]" 0 0 TextNode ex_text "[]" 0 22 "Some 20" ex_view]
        updateNextNode_lock [OF ex_lock_candidate _ ex_lock_holds,
          of ex_upd ex_text_abd "[]" 0 0 TextNode ex_text "[]" 0 22 "Some 20" ex_view]
  by (simp add: ex_u_lock_facts ex_text_desc_facts ex_lock_settled ex_lock_markup
        option.map_comp comp_def case_prod_unfold)

theorem same_length_text_counterexample:
  "isText ex_text_abd
   \<and> length (ntext ex_text_abd) = length (ntext ex_text)
   \<and> sameMarkup ex_text_abd ex_text
   \<and> sameOuterDeco [] (outerDeco (cls ex_text_desc))
   \<and> fst (TextViewDesc_update ex_view ex_world (Some 20) ex_text_desc ex_text_abd [])
   \<and> holdsLock ex_host 22 ex_text_desc
   \<and> updateNextNode ex_upd ex_text_abd [] 0 0 ex_u_lock = Some (False, ex_u_lock)"
proof -
  have "fst (TextViewDesc_update ex_view ex_world (Some 20) ex_text_desc ex_text_abd [])"
    by (simp add: TextViewDesc_update_def ex_text_desc_facts ex_lock_markup dirty_levels
          updateOuterDeco_def Let_def)
  moreover have "updateNextNode ex_upd ex_text_abd [] 0 0 ex_u_lock = Some (False, ex_u_lock)"
    by (simp add: updateNextNode_def Let_def ex_lock_candidate ex_u_lock_facts
          ex_text_desc_facts indexOfDesc_def locked_def holdsLock_def ex_lock_settled)
  ultimately show ?thesis
    by (simp add: ex_lock_markup ex_text_desc_facts holdsLock_def)
       (simp add: ex_text_abd_def ex_text_def)
qed

end
